theory Spec2Isabelle
  imports Complex_Main "HOL-Library.Sublist" "HOL-Library.AList"
begin

section \<open>The auto-reply manager of \<open>backend/auto_reply.py\<close>\<close>

text \<open>
  The development embeds \<open>AutoReplyManager\<close> and the values it handles. A string is a
  \<open>char list\<close> and a character is a code point below 256, so the strings are the texts
  of the Latin-1 range. A message is a Python \<open>Dict\<close>: a partial map from keys to values,
  and a value need not be a string (the gateway copies \<open>msg.text\<close> as it comes).
\<close>

subsection \<open>Values, exceptions, records\<close>

datatype pyval = PNone | PStr string | PInt int

datatype exn = AttributeError string | KeyError string | Raised string

type_synonym message = "string \<rightharpoonup> pyval"

type_synonym datetime = int

record AutoReplyConfig =
  is_enabled :: bool
  template_id :: "string option"
  conditions :: "(string \<times> string) list"

record Template =
  tid :: "string option"
  name :: string
  content :: string
  variables :: "string list"

record gen_context =
  intent_analysis :: pyval
  template_guide :: string

text \<open>\<open>settings.AUTO_REPLY_CHECK_INTERVAL\<close> of \<open>config.py\<close>, in seconds.\<close>

definition AUTO_REPLY_CHECK_INTERVAL :: nat where
  "AUTO_REPLY_CHECK_INTERVAL = 60"

subsection \<open>What the manager does to the outside\<close>

text \<open>
  Every call to a collaborator, every read of the clock, every sleep and every log record
  is an event; a run is the list of its events, oldest first. Log records keep the values
  that the source formats into the message.
\<close>

datatype log_entry =
    Starting
  | Stopping
  | UpdatedConfig string
  | DisabledAutoReply string
  | ErrorInLoop exn
  | ErrorChecking string exn
  | ErrorProcessing exn
  | ErrorConditions exn
  | TemplateNotFound "string option"
  | ErrorTemplate exn
  | ReplySent pyval
  | SendFailed "string option"

datatype event =
    ClockRead
  | GatewayPoll string
  | GatewaySend string pyval string
  | StoreLookup "string option"
  | IntentCall pyval
  | GenerateCall pyval gen_context
  | Sleep nat
  | LogInfo log_entry
  | LogError log_entry

type_synonym trace = "event list"

subsection \<open>Strings\<close>

text \<open>
  \<open>str.lower\<close> follows the Unicode case mapping. On code points below 256 it works
  character by character: the upper-case letters are \<open>A\<close> to \<open>Z\<close> (65 to 90) and the
  accented capitals 192 to 222 without the multiplication sign 215, each has its lower-case
  letter 32 code points further, and every other character is left as it is (the sharp s
  223, the micro sign 181 and the y with diaeresis 255 included, which are lower case).
\<close>

definition lower_char :: "char \<Rightarrow> char" where
  "lower_char c =
     (let n = (of_char c :: nat) in
      if (65 \<le> n \<and> n \<le> 90) \<or> (192 \<le> n \<and> n \<le> 222 \<and> n \<noteq> 215)
      then char_of (n + 32) else c)"

definition str_lower :: "string \<Rightarrow> string" where
  "str_lower s = map lower_char s"

text \<open>\<open>message.get(key, default)\<close>.\<close>

definition dict_get :: "message \<Rightarrow> string \<Rightarrow> pyval \<Rightarrow> pyval" where
  "dict_get m k d = (case m k of None \<Rightarrow> d | Some v \<Rightarrow> v)"

text \<open>\<open>v.lower()\<close>: only a string has the method; anything else raises \<open>AttributeError\<close>.\<close>

definition py_lower :: "pyval \<Rightarrow> exn + string" where
  "py_lower v = (case v of PStr s \<Rightarrow> Inr (str_lower s) | _ \<Rightarrow> Inl (AttributeError ''lower''))"

subsection \<open>\<open>_should_reply\<close>\<close>

text \<open>
  The loop over \<open>config.conditions.items()\<close>, on the items in the dict's order. The
  tests are \<open>in\<close> (\<^const>\<open>sublist\<close>), \<open>startswith\<close> (\<^const>\<open>prefix\<close>) and \<open>endswith\<close>
  (\<^const>\<open>suffix\<close>).
\<close>

fun check_conditions :: "string \<Rightarrow> (string \<times> string) list \<Rightarrow> bool" where
  "check_conditions message_text [] = True"
| "check_conditions message_text ((condition_type, condition_value) # rest) =
     (if condition_type = ''contains'' then
        (if \<not> sublist (str_lower condition_value) message_text then False
         else check_conditions message_text rest)
      else if condition_type = ''starts_with'' then
        (if \<not> prefix (str_lower condition_value) message_text then False
         else check_conditions message_text rest)
      else if condition_type = ''ends_with'' then
        (if \<not> suffix (str_lower condition_value) message_text then False
         else check_conditions message_text rest)
      else check_conditions message_text rest)"

text \<open>The body of the \<open>try\<close>.\<close>

definition should_reply_try :: "message \<Rightarrow> AutoReplyConfig \<Rightarrow> exn + bool" where
  "should_reply_try message config =
     (case py_lower (dict_get message ''text'' (PStr [])) of
        Inl e \<Rightarrow> Inl e
      | Inr message_text \<Rightarrow> Inr (check_conditions message_text (conditions config)))"

text \<open>The whole method: the handler logs the exception and answers \<open>False\<close>.\<close>

definition should_reply :: "message \<Rightarrow> AutoReplyConfig \<Rightarrow> trace \<Rightarrow> bool \<times> trace" where
  "should_reply message config tr =
     (case should_reply_try message config of
        Inr b \<Rightarrow> (b, tr)
      | Inl e \<Rightarrow> (False, tr @ [LogError (ErrorConditions e)]))"

subsection \<open>The collaborators\<close>

text \<open>
  The template store (\<open>db\<close>), the messaging gateway (\<open>instagram_client\<close>), the response
  generator (\<open>groq_client\<close>) and the clock are outside the manager. Each answers as a
  function of the run so far, and each call may raise: \<open>Inl\<close> is an exception of class
  \<open>Exception\<close>, the class that every handler of the manager catches. The wrappers of
  \<open>utils/\<close> catch what the libraries under them raise and are the instances that
  never answer \<open>Inl\<close>. \<open>other_tasks\<close> lists the calls that the rest of the process makes
  on the manager while the loop is asleep.
\<close>

datatype control = Stop | UpdateConfig string AutoReplyConfig

record env =
  clock :: "trace \<Rightarrow> datetime"
  gw_check_new_messages :: "trace \<Rightarrow> string \<Rightarrow> exn + message list"
  gw_send_auto_reply :: "trace \<Rightarrow> string \<Rightarrow> pyval \<Rightarrow> string \<Rightarrow> exn + bool \<times> string option"
  db_get_template :: "trace \<Rightarrow> string option \<Rightarrow> exn + Template option"
  groq_analyze_message_intent :: "trace \<Rightarrow> pyval \<Rightarrow> exn + pyval"
  groq_generate_dm_response :: "trace \<Rightarrow> pyval \<Rightarrow> gen_context \<Rightarrow> exn + string option"
  other_tasks :: "trace \<Rightarrow> control list"

subsection \<open>\<open>_get_reply_template\<close>\<close>

text \<open>\<open>response if response else template.content\<close>: \<open>None\<close> and the empty string are falsy.\<close>

definition response_or :: "string option \<Rightarrow> string \<Rightarrow> string" where
  "response_or response dflt =
     (case response of None \<Rightarrow> dflt | Some r \<Rightarrow> if r = [] then dflt else r)"

definition get_reply_template_try ::
  "env \<Rightarrow> string option \<Rightarrow> message \<Rightarrow> trace \<Rightarrow> (exn + string option) \<times> trace" where
  "get_reply_template_try env template_ref message tr =
     (let tr1 = tr @ [StoreLookup template_ref] in
      case db_get_template env tr template_ref of
        Inl e \<Rightarrow> (Inl e, tr1)
      | Inr None \<Rightarrow> (Inr None, tr1 @ [LogError (TemplateNotFound template_ref)])
      | Inr (Some template) \<Rightarrow>
          if prefix ''AI:'' (content template) then
            (let text = dict_get message ''text'' (PStr []);
                 tr2 = tr1 @ [IntentCall text] in
             case groq_analyze_message_intent env tr1 text of
               Inl e \<Rightarrow> (Inl e, tr2)
             | Inr intent \<Rightarrow>
                 (let ctx = \<lparr>intent_analysis = intent,
                             template_guide = drop 3 (content template)\<rparr>;
                      tr3 = tr2 @ [GenerateCall text ctx] in
                  case groq_generate_dm_response env tr2 text ctx of
                    Inl e \<Rightarrow> (Inl e, tr3)
                  | Inr response \<Rightarrow>
                      (Inr (Some (response_or response (content template))), tr3)))
          else (Inr (Some (content template)), tr1))"

definition get_reply_template ::
  "env \<Rightarrow> string option \<Rightarrow> message \<Rightarrow> trace \<Rightarrow> string option \<times> trace" where
  "get_reply_template env template_ref message tr =
     (case get_reply_template_try env template_ref message tr of
        (Inr r, tr') \<Rightarrow> (r, tr')
      | (Inl e, tr') \<Rightarrow> (None, tr' @ [LogError (ErrorTemplate e)]))"

subsection \<open>\<open>_process_message\<close>\<close>

text \<open>\<open>not template\<close> holds for \<open>None\<close> and for the empty string.\<close>

definition process_message_try ::
  "env \<Rightarrow> string \<Rightarrow> message \<Rightarrow> AutoReplyConfig \<Rightarrow> trace \<Rightarrow> (exn + unit) \<times> trace" where
  "process_message_try env username message config tr =
     (case should_reply message config tr of (ok, tr1) \<Rightarrow>
        if \<not> ok then (Inr (), tr1)
        else
          (case get_reply_template env (template_id config) message tr1 of (template, tr2) \<Rightarrow>
             (case template of
                None \<Rightarrow> (Inr (), tr2)
              | Some text \<Rightarrow>
                  if text = [] then (Inr (), tr2)
                  else
                    (case message ''thread_id'' of
                       None \<Rightarrow> (Inl (KeyError ''thread_id''), tr2)
                     | Some thread_id \<Rightarrow>
                         (let tr3 = tr2 @ [GatewaySend username thread_id text] in
                          case gw_send_auto_reply env tr2 username thread_id text of
                            Inl e \<Rightarrow> (Inl e, tr3)
                          | Inr (success, error) \<Rightarrow>
                              if success then (Inr (), tr3 @ [LogInfo (ReplySent thread_id)])
                              else (Inr (), tr3 @ [LogError (SendFailed error)]))))))"

definition process_message ::
  "env \<Rightarrow> string \<Rightarrow> message \<Rightarrow> AutoReplyConfig \<Rightarrow> trace \<Rightarrow> trace" where
  "process_message env username message config tr =
     (case process_message_try env username message config tr of
        (Inr u, tr') \<Rightarrow> tr'
      | (Inl e, tr') \<Rightarrow> tr' @ [LogError (ErrorProcessing e)])"

text \<open>\<open>for message in messages: await self._process_message(username, message, config)\<close>.\<close>

fun process_messages ::
  "env \<Rightarrow> string \<Rightarrow> AutoReplyConfig \<Rightarrow> message list \<Rightarrow> trace \<Rightarrow> trace" where
  "process_messages env username config [] tr = tr"
| "process_messages env username config (message # messages) tr =
     process_messages env username config messages
       (process_message env username message config tr)"

subsection \<open>The manager's state, \<open>update_config\<close> and \<open>stop\<close>\<close>

text \<open>
  \<open>active_configs\<close> is a dict that the loop iterates: its items in insertion order.
  Assigning to a key that is there keeps its place, a new key goes last
  (\<^const>\<open>AList.update\<close>); \<open>pop(username, None)\<close> removes the key if it is there
  (\<^const>\<open>AList.delete\<close>). \<open>last_check_times\<close> is only read and written by key.
\<close>

record AutoReplyManager =
  is_running :: bool
  active_configs :: "(string \<times> AutoReplyConfig) list"
  last_check_times :: "string \<rightharpoonup> datetime"

type_synonym mstate = "AutoReplyManager \<times> trace"

definition init :: AutoReplyManager where
  "init = \<lparr>is_running = False, active_configs = [], last_check_times = Map.empty\<rparr>"

definition update_config :: "string \<Rightarrow> AutoReplyConfig \<Rightarrow> mstate \<Rightarrow> mstate" where
  "update_config username config s =
     (case s of (st, tr) \<Rightarrow>
        if is_enabled config then
          (st\<lparr>active_configs := AList.update username config (active_configs st)\<rparr>,
           tr @ [LogInfo (UpdatedConfig username)])
        else
          (st\<lparr>active_configs := AList.delete username (active_configs st)\<rparr>,
           tr @ [LogInfo (DisabledAutoReply username)]))"

definition stop :: "mstate \<Rightarrow> mstate" where
  "stop s = (case s of (st, tr) \<Rightarrow> (st\<lparr>is_running := False\<rparr>, tr @ [LogInfo Stopping]))"

subsection \<open>\<open>_check_new_messages\<close>\<close>

text \<open>
  A \<open>datetime\<close> is a count of microseconds, the resolution of Python's type, and
  \<open>total_seconds\<close> of a difference is that count over \<open>10\<^sup>6\<close>.
\<close>

definition total_seconds :: "int \<Rightarrow> rat" where
  "total_seconds d = of_int d / 1000000"

text \<open>
  ``Skip if we checked recently'': the account has a recorded time and less than the
  interval has passed since.
\<close>

definition checked_recently :: "(string \<rightharpoonup> datetime) \<Rightarrow> string \<Rightarrow> datetime \<Rightarrow> bool" where
  "checked_recently check_times username now =
     (case check_times username of
        None \<Rightarrow> False
      | Some last_check \<Rightarrow>
          total_seconds (now - last_check) < of_nat AUTO_REPLY_CHECK_INTERVAL)"

text \<open>
  The body of the \<open>for\<close> loop for one item: first the \<open>try\<close> block, where \<open>continue\<close> ends
  the item with nothing done, then the handler around it.
\<close>

definition check_account_try ::
  "env \<Rightarrow> string \<times> AutoReplyConfig \<Rightarrow> mstate \<Rightarrow> (exn + unit) \<times> mstate" where
  "check_account_try env item s =
     (case item of (username, config) \<Rightarrow> case s of (st, tr) \<Rightarrow>
        (let now = clock env tr; tr1 = tr @ [ClockRead] in
         if checked_recently (last_check_times st) username now then (Inr (), (st, tr1))
         else
           (let tr2 = tr1 @ [GatewayPoll username] in
            case gw_check_new_messages env tr1 username of
              Inl e \<Rightarrow> (Inl e, (st, tr2))
            | Inr messages \<Rightarrow>
                (Inr (),
                 (st\<lparr>last_check_times := (last_check_times st)(username \<mapsto> now)\<rparr>,
                  process_messages env username config messages tr2)))))"

definition check_account :: "env \<Rightarrow> string \<times> AutoReplyConfig \<Rightarrow> mstate \<Rightarrow> mstate" where
  "check_account env item s =
     (case check_account_try env item s of
        (Inr u, s') \<Rightarrow> s'
      | (Inl e, (st, tr)) \<Rightarrow> (st, tr @ [LogError (ErrorChecking (fst item) e)]))"

fun check_accounts :: "env \<Rightarrow> (string \<times> AutoReplyConfig) list \<Rightarrow> mstate \<Rightarrow> mstate" where
  "check_accounts env [] s = s"
| "check_accounts env (item # items) s = check_accounts env items (check_account env item s)"

definition check_new_messages :: "env \<Rightarrow> mstate \<Rightarrow> mstate" where
  "check_new_messages env s = check_accounts env (active_configs (fst s)) s"

subsection \<open>\<open>start\<close>\<close>

text \<open>
  One turn of the \<open>while\<close> loop. The loop awaits the tick and the sleep, and while it
  waits the rest of the process runs: the turn takes both as functions of the state, so
  that what they return covers whatever happened meanwhile, an exception out of the tick
  included.
\<close>

definition start_iteration ::
  "(mstate \<Rightarrow> (exn + unit) \<times> mstate) \<Rightarrow> (nat \<Rightarrow> mstate \<Rightarrow> mstate) \<Rightarrow> mstate \<Rightarrow> mstate" where
  "start_iteration tick slp s =
     (case tick s of
        (Inr u, s1) \<Rightarrow> slp AUTO_REPLY_CHECK_INTERVAL s1
      | (Inl e, (st, tr)) \<Rightarrow> slp AUTO_REPLY_CHECK_INTERVAL (st, tr @ [LogError (ErrorInLoop e)]))"

text \<open>The loop may run forever: \<open>None\<close> is the run that never leaves it.\<close>

partial_function (option) start_loop ::
  "(mstate \<Rightarrow> (exn + unit) \<times> mstate) \<Rightarrow> (nat \<Rightarrow> mstate \<Rightarrow> mstate) \<Rightarrow> mstate \<Rightarrow> mstate option" where
  "start_loop tick slp s =
     (if is_running (fst s) then start_loop tick slp (start_iteration tick slp s) else Some s)"

definition start_with ::
  "(mstate \<Rightarrow> (exn + unit) \<times> mstate) \<Rightarrow> (nat \<Rightarrow> mstate \<Rightarrow> mstate) \<Rightarrow> mstate \<Rightarrow> mstate option" where
  "start_with tick slp s =
     (case s of (st, tr) \<Rightarrow>
        start_loop tick slp (st\<lparr>is_running := True\<rparr>, tr @ [LogInfo Starting]))"

text \<open>
  The instance with the tick above, run with nothing else touching the manager, and a
  sleep during which the other tasks make their calls.
\<close>

fun apply_control :: "control \<Rightarrow> mstate \<Rightarrow> mstate" where
  "apply_control Stop s = stop s"
| "apply_control (UpdateConfig username config) s = update_config username config s"

definition asyncio_sleep :: "env \<Rightarrow> nat \<Rightarrow> mstate \<Rightarrow> mstate" where
  "asyncio_sleep env n s =
     (case s of (st, tr) \<Rightarrow>
        fold apply_control (other_tasks env (tr @ [Sleep n])) (st, tr @ [Sleep n]))"

definition start :: "env \<Rightarrow> mstate \<Rightarrow> mstate option" where
  "start env s = start_with (\<lambda>s. (Inr (), check_new_messages env s)) (asyncio_sleep env) s"

text \<open>The number of gateway polls for an account in a run.\<close>

definition polls_of :: "string \<Rightarrow> trace \<Rightarrow> nat" where
  "polls_of username tr = length (filter (\<lambda>ev. ev = GatewayPoll username) tr)"

subsection \<open>A scenario\<close>

text \<open>
  Two templates in the store: \<open>T1\<close> is plain text, \<open>T2\<close> asks for a generated reply and
  \<open>T3\<close> differs from it in the case of the marker only. The gateway raises for account
  \<open>a\<close> and returns one unseen message for any other account; the clock advances five
  seconds with every event; the generator answers \<open>gen\<close>; another task calls \<open>stop\<close>
  once the run has \<open>stop_at\<close> events.
\<close>

definition scenario_message :: message where
  "scenario_message =
     [''thread_id'' \<mapsto> PStr ''th1'', ''sender_id'' \<mapsto> PInt 7,
      ''text'' \<mapsto> PStr ''What time do you OPEN?'']"

definition scenario_store :: "string option \<Rightarrow> Template option" where
  "scenario_store template_ref =
     (if template_ref = Some ''T1'' then
        Some \<lparr>tid = Some ''T1'', name = ''plain'', content = ''Thanks for asking!'',
              variables = []\<rparr>
      else if template_ref = Some ''T2'' then
        Some \<lparr>tid = Some ''T2'', name = ''generated'', content = ''AI:be concise'',
              variables = []\<rparr>
      else if template_ref = Some ''T3'' then
        Some \<lparr>tid = Some ''T3'', name = ''lower case'', content = ''ai:be concise'',
              variables = []\<rparr>
      else None)"

definition scenario_env :: "string option \<Rightarrow> nat \<Rightarrow> env" where
  "scenario_env gen stop_at =
     \<lparr>clock = (\<lambda>h. 5000000 * int (length h)),
      gw_check_new_messages =
        (\<lambda>h username. if username = ''a'' then Inl (Raised ''login required'')
                       else Inr [scenario_message]),
      gw_send_auto_reply = (\<lambda>h username thread_id text. Inr (True, None)),
      db_get_template = (\<lambda>h template_ref. Inr (scenario_store template_ref)),
      groq_analyze_message_intent = (\<lambda>h text. Inr PNone),
      groq_generate_dm_response = (\<lambda>h text ctx. Inr gen),
      other_tasks = (\<lambda>h. if stop_at \<le> length h then [Stop] else [])\<rparr>"

definition scenario_config :: "string \<Rightarrow> AutoReplyConfig" where
  "scenario_config template_ref =
     \<lparr>is_enabled = True, template_id = Some template_ref,
      conditions = [(''ends_with'', ''?''), (''contains'', ''Open''), (''regex'', ''x'')]\<rparr>"

text \<open>
  A manager that is not running, with one active account that was last polled at second 1.
\<close>

definition scenario_manager :: AutoReplyManager where
  "scenario_manager =
     \<lparr>is_running = False,
      active_configs = [(''acct'', scenario_config ''T1'')],
      last_check_times = [''acct'' \<mapsto> 1000000]\<rparr>"


text \<open>
  A tick that fails once: it raises, as the iteration over \<open>active_configs\<close> does when a
  key is added meanwhile, unless the run has the record of that error already, and then
  it is the tick of the manager.
\<close>

definition scenario_tick :: "env \<Rightarrow> mstate \<Rightarrow> (exn + unit) \<times> mstate" where
  "scenario_tick env s =
     (if LogError (ErrorInLoop (Raised ''dictionary changed size during iteration'')) \<in> set (snd s)
      then (Inr (), check_new_messages env s)
      else (Inl (Raised ''dictionary changed size during iteration''), s))"

section \<open>Properties of the condition evaluator\<close>

lemma check_conditions_iff:
  "check_conditions t cs =
     (\<forall>(k, v) \<in> set cs.
        (k = ''contains'' \<longrightarrow> sublist (str_lower v) t) \<and>
        (k = ''starts_with'' \<longrightarrow> prefix (str_lower v) t) \<and>
        (k = ''ends_with'' \<longrightarrow> suffix (str_lower v) t))"
  by (induction t cs rule: check_conditions.induct) auto

lemma str_lower_Nil_iff: "str_lower s = [] \<longleftrightarrow> s = []"
  by (simp add: str_lower_def)

lemma str_lower_length: "length (str_lower s) = length s"
  by (simp add: str_lower_def)

lemma of_char_lower_char:
  "(of_char (lower_char c) :: nat) =
     (if (65 \<le> (of_char c :: nat) \<and> (of_char c :: nat) \<le> 90) \<or>
         (192 \<le> (of_char c :: nat) \<and> (of_char c :: nat) \<le> 222 \<and> (of_char c :: nat) \<noteq> 215)
      then of_char c + 32 else of_char c)"
  by (simp add: lower_char_def Let_def)

lemma str_lower_examples:
  "str_lower ''What time do you OPEN?'' = ''what time do you open?''"
  "str_lower [CHR 0xC9, CHR ''t'', CHR 0xC9, CHR 0xD7, CHR 0xDF] =
     [CHR 0xE9, CHR ''t'', CHR 0xE9, CHR 0xD7, CHR 0xDF]"
  by code_simp+

text \<open>
  C1, as stated, fails: a message whose \<open>text\<close> entry is \<open>None\<close> makes \<open>.lower()\<close> raise,
  the handler logs the exception and answers \<open>False\<close>, and so an empty condition mapping
  does not yield \<open>True\<close>.
\<close>

theorem should_reply_empty_conditions_counterexample:
  "should_reply [''text'' \<mapsto> PNone]
     \<lparr>is_enabled = True, template_id = None, conditions = []\<rparr> [] =
   (False, [LogError (ErrorConditions (AttributeError ''lower''))])"
  by (simp add: should_reply_def should_reply_try_def py_lower_def dict_get_def)

text \<open>
  C1, amended: when the \<open>text\<close> entry of the message is a string, or is absent and so
  read as the empty string, \<open>_should_reply\<close> logs nothing and returns \<open>True\<close> if and only
  if every item of the condition mapping of a recognized kind holds of the lowercased text
  and the lowercased operand: \<open>contains\<close> as a substring test, \<open>starts_with\<close> as a prefix
  test, \<open>ends_with\<close> as a suffix test. Items of any other kind are ignored, and the empty
  mapping yields \<open>True\<close>. When the \<open>text\<close> entry is there and is not a string, the
  lowering raises \<open>AttributeError\<close>, the handler logs it as an error and the result is
  \<open>False\<close> for every mapping.
\<close>

theorem should_reply_iff_conditions_hold:
  "should_reply m cfg tr =
     (case dict_get m ''text'' (PStr []) of
        PStr t \<Rightarrow>
          ((\<forall>(k, v) \<in> set (conditions cfg).
              (k = ''contains'' \<longrightarrow> sublist (str_lower v) (str_lower t)) \<and>
              (k = ''starts_with'' \<longrightarrow> prefix (str_lower v) (str_lower t)) \<and>
              (k = ''ends_with'' \<longrightarrow> suffix (str_lower v) (str_lower t))), tr)
      | _ \<Rightarrow> (False, tr @ [LogError (ErrorConditions (AttributeError ''lower''))]))"
  by (simp add: should_reply_def should_reply_try_def py_lower_def check_conditions_iff
      split: pyval.splits)

theorem should_reply_iff_conditions_hold_witness:
  "should_reply scenario_message (scenario_config ''T1'') [] = (True, []) \<and>
   should_reply [''text'' \<mapsto> PStr [CHR 0xC9, CHR ''t'', CHR 0xC9]]
     \<lparr>is_enabled = True, template_id = None,
      conditions = [(''contains'', [CHR 0xE9, CHR ''T'']), (''starts_with'', ''x'')]\<rparr> [] =
     (False, []) \<and>
   should_reply [''text'' \<mapsto> PInt 3] (scenario_config ''T1'') [] =
     (False, [LogError (ErrorConditions (AttributeError ''lower''))])"
proof -
  have a: "suffix (str_lower ''?'') (str_lower ''What time do you OPEN?'')"
    by code_simp
  have b: "sublist (str_lower ''Open'') (str_lower ''What time do you OPEN?'')"
    by code_simp
  have c: "sublist (str_lower [CHR 0xE9, CHR ''T'']) (str_lower [CHR 0xC9, CHR ''t'', CHR 0xC9])"
    by code_simp
  have d: "\<not> prefix (str_lower ''x'') (str_lower [CHR 0xC9, CHR ''t'', CHR 0xC9])"
    by code_simp
  show ?thesis
    using should_reply_iff_conditions_hold [of scenario_message "scenario_config ''T1''" "[]"]
      should_reply_iff_conditions_hold
        [of "[''text'' \<mapsto> PStr [CHR 0xC9, CHR ''t'', CHR 0xC9]]"
            "\<lparr>is_enabled = True, template_id = None,
              conditions = [(''contains'', [CHR 0xE9, CHR ''T'']), (''starts_with'', ''x'')]\<rparr>" "[]"]
      should_reply_iff_conditions_hold [of "[''text'' \<mapsto> PInt 3]" "scenario_config ''T1''" "[]"]
      a b c d
    by (simp add: dict_get_def scenario_message_def scenario_config_def)
qed

text \<open>
  C10: for a message dict with no \<open>text\<close> key, \<open>_should_reply\<close> evaluates the conditions
  against the empty string and nothing is raised (the \<open>try\<close> block returns, no error is
  logged). The result is \<open>True\<close> exactly when every \<open>contains\<close>, \<open>starts_with\<close> and
  \<open>ends_with\<close> item holds of the empty string, that is, when each of them has the empty
  operand: with the empty mapping the result is \<open>True\<close>, and with any \<open>contains\<close>,
  \<open>starts_with\<close> or \<open>ends_with\<close> item whose operand is not empty it is \<open>False\<close>.
\<close>

theorem should_reply_without_text_key:
  assumes "m ''text'' = None"
  shows "should_reply m cfg tr =
           ((\<forall>(k, v) \<in> set (conditions cfg).
               k \<in> {''contains'', ''starts_with'', ''ends_with''} \<longrightarrow> v = []), tr) \<and>
         should_reply m cfg tr =
           ((\<forall>(k, v) \<in> set (conditions cfg).
               (k = ''contains'' \<longrightarrow> sublist (str_lower v) []) \<and>
               (k = ''starts_with'' \<longrightarrow> prefix (str_lower v) []) \<and>
               (k = ''ends_with'' \<longrightarrow> suffix (str_lower v) [])), tr) \<and>
         should_reply_try m cfg = Inr (check_conditions [] (conditions cfg)) \<and>
         (conditions cfg = [] \<longrightarrow> should_reply m cfg tr = (True, tr)) \<and>
         (\<forall>k v. (k, v) \<in> set (conditions cfg) \<and>
                 k \<in> {''contains'', ''starts_with'', ''ends_with''} \<and> v \<noteq> [] \<longrightarrow>
                 should_reply m cfg tr = (False, tr))"
proof -
  from assms have t: "should_reply_try m cfg = Inr (check_conditions [] (conditions cfg))"
    by (simp add: should_reply_try_def py_lower_def dict_get_def str_lower_def)
  then have r: "should_reply m cfg tr = (check_conditions [] (conditions cfg), tr)"
    by (simp add: should_reply_def)
  have e: "check_conditions [] (conditions cfg) =
             (\<forall>(k, v) \<in> set (conditions cfg).
                k \<in> {''contains'', ''starts_with'', ''ends_with''} \<longrightarrow> v = [])"
    by (auto simp add: check_conditions_iff str_lower_Nil_iff)
  have f: "check_conditions [] (conditions cfg) =
             (\<forall>(k, v) \<in> set (conditions cfg).
               (k = ''contains'' \<longrightarrow> sublist (str_lower v) []) \<and>
               (k = ''starts_with'' \<longrightarrow> prefix (str_lower v) []) \<and>
               (k = ''ends_with'' \<longrightarrow> suffix (str_lower v) []))"
    by (rule check_conditions_iff)
  have g: "conditions cfg = [] \<longrightarrow> check_conditions [] (conditions cfg)"
    by simp
  have h: "\<forall>k v. (k, v) \<in> set (conditions cfg) \<and>
                 k \<in> {''contains'', ''starts_with'', ''ends_with''} \<and> v \<noteq> [] \<longrightarrow>
                 \<not> check_conditions [] (conditions cfg)"
    unfolding e by blast
  from t e f g h show ?thesis
    unfolding r by simp
qed

theorem should_reply_without_text_key_witness:
  "should_reply [''thread_id'' \<mapsto> PStr ''th1''] (scenario_config ''T1'') [LogInfo Starting] =
     (False, [LogInfo Starting]) \<and>
   should_reply [''thread_id'' \<mapsto> PStr ''th1'']
     \<lparr>is_enabled = True, template_id = None, conditions = []\<rparr> [] = (True, []) \<and>
   should_reply [''thread_id'' \<mapsto> PStr ''th1'']
     \<lparr>is_enabled = True, template_id = None,
      conditions = [(''regex'', ''x''), (''contains'', [])]\<rparr> [] = (True, [])"
proof -
  have no_text: "[''thread_id'' \<mapsto> PStr ''th1''] ''text'' = None"
    by simp
  from no_text should_reply_without_text_key
         [of "[''thread_id'' \<mapsto> PStr ''th1'']" "scenario_config ''T1''" "[LogInfo Starting]"]
  have "should_reply [''thread_id'' \<mapsto> PStr ''th1''] (scenario_config ''T1'') [LogInfo Starting] =
          (False, [LogInfo Starting])"
    by (simp add: scenario_config_def)
  moreover
  from no_text should_reply_without_text_key
         [of "[''thread_id'' \<mapsto> PStr ''th1'']"
             "\<lparr>is_enabled = True, template_id = None, conditions = []\<rparr>" "[]"]
  have "should_reply [''thread_id'' \<mapsto> PStr ''th1'']
          \<lparr>is_enabled = True, template_id = None, conditions = []\<rparr> [] = (True, [])"
    by simp
  moreover
  from no_text should_reply_without_text_key
         [of "[''thread_id'' \<mapsto> PStr ''th1'']"
             "\<lparr>is_enabled = True, template_id = None,
               conditions = [(''regex'', ''x''), (''contains'', [])]\<rparr>" "[]"]
  have "should_reply [''thread_id'' \<mapsto> PStr ''th1'']
          \<lparr>is_enabled = True, template_id = None,
           conditions = [(''regex'', ''x''), (''contains'', [])]\<rparr> [] = (True, [])"
    by simp
  ultimately show ?thesis by simp
qed

section \<open>Properties of the template resolver\<close>

text \<open>
  C5: for a template found in the store whose content starts with \<open>AI:\<close>, when the intent
  analysis returns and the generator then answers, \<open>_get_reply_template\<close> returns the
  generator's text if there is some, and the raw content of the template, marker
  included, if the generator answers \<open>None\<close> or the empty string.
\<close>

theorem ai_template_reply:
  assumes "db_get_template env tr template_ref = Inr (Some t)"
    and "prefix ''AI:'' (content t)"
    and "text = dict_get m ''text'' (PStr [])"
    and "groq_analyze_message_intent env (tr @ [StoreLookup template_ref]) text = Inr ia"
    and "groq_generate_dm_response env (tr @ [StoreLookup template_ref, IntentCall text]) text
           \<lparr>intent_analysis = ia, template_guide = drop 3 (content t)\<rparr> = Inr response"
  shows "(\<forall>r. response = Some r \<and> r \<noteq> [] \<longrightarrow>
            fst (get_reply_template env template_ref m tr) = Some r) \<and>
         (response = None \<or> response = Some [] \<longrightarrow>
            fst (get_reply_template env template_ref m tr) = Some (content t))"
  using assms
  by (auto simp add: get_reply_template_def get_reply_template_try_def response_or_def Let_def)

theorem ai_template_reply_witness:
  "fst (get_reply_template (scenario_env (Some ''Thanks!'') 0) (Some ''T2'') scenario_message [])
     = Some ''Thanks!'' \<and>
   fst (get_reply_template (scenario_env None 0) (Some ''T2'') scenario_message [])
     = Some ''AI:be concise''"
  using ai_template_reply
          [of "scenario_env (Some ''Thanks!'') 0" "[]" "Some ''T2''" "the (scenario_store (Some ''T2''))"
              "PStr ''What time do you OPEN?''" scenario_message PNone "Some ''Thanks!''"]
        ai_template_reply
          [of "scenario_env None 0" "[]" "Some ''T2''" "the (scenario_store (Some ''T2''))"
              "PStr ''What time do you OPEN?''" scenario_message PNone None]
  by (simp add: scenario_env_def scenario_store_def scenario_message_def dict_get_def)

text \<open>
  C6: for a template found in the store whose content does not start with \<open>AI:\<close>,
  \<open>_get_reply_template\<close> returns the content as it is, and its only call to the outside
  is the lookup in the store: the generator is not invoked.
\<close>

theorem plain_template_verbatim:
  assumes "db_get_template env tr template_ref = Inr (Some t)"
    and "\<not> prefix ''AI:'' (content t)"
  shows "get_reply_template env template_ref m tr =
           (Some (content t), tr @ [StoreLookup template_ref])"
  using assms by (simp add: get_reply_template_def get_reply_template_try_def)

theorem plain_template_verbatim_witness:
  "get_reply_template (scenario_env (Some ''Thanks!'') 0) (Some ''T1'') scenario_message [] =
     (Some ''Thanks for asking!'', [StoreLookup (Some ''T1'')])"
  using plain_template_verbatim
          [of "scenario_env (Some ''Thanks!'') 0" "[]" "Some ''T1''"
              "the (scenario_store (Some ''T1''))" scenario_message]
  by (simp add: scenario_env_def scenario_store_def)

text \<open>
  C9: the marker test is case-sensitive and three characters long. A found template whose
  content does not start with \<open>AI:\<close>, one that starts with \<open>ai:\<close> or \<open>Ai:\<close> in
  particular, is returned as it is with no call but the lookup; for content \<open>AI:\<close>
  followed by \<open>g\<close>, once the intent analysis has returned, the generator is called with
  the guide string \<open>g\<close>.
\<close>

theorem ai_marker_case_sensitive:
  assumes "db_get_template env tr template_ref = Inr (Some t)"
    and "text = dict_get m ''text'' (PStr [])"
  shows "(\<not> prefix ''AI:'' (content t) \<longrightarrow>
            get_reply_template env template_ref m tr =
              (Some (content t), tr @ [StoreLookup template_ref])) \<and>
         (prefix ''ai:'' (content t) \<or> prefix ''Ai:'' (content t) \<longrightarrow>
            get_reply_template env template_ref m tr =
              (Some (content t), tr @ [StoreLookup template_ref])) \<and>
         (\<forall>g ia. content t = ''AI:'' @ g \<and>
                 groq_analyze_message_intent env (tr @ [StoreLookup template_ref]) text = Inr ia \<longrightarrow>
            (\<exists>rest. snd (get_reply_template env template_ref m tr) =
               tr @ [StoreLookup template_ref, IntentCall text,
                     GenerateCall text \<lparr>intent_analysis = ia, template_guide = g\<rparr>] @ rest))"
  using assms
  by (auto simp add: get_reply_template_def get_reply_template_try_def Let_def prefix_def
      split: sum.splits)

theorem ai_marker_case_sensitive_witness:
  "get_reply_template (scenario_env (Some ''Thanks!'') 0) (Some ''T3'') scenario_message [] =
     (Some ''ai:be concise'', [StoreLookup (Some ''T3'')]) \<and>
   (\<exists>rest. snd (get_reply_template (scenario_env (Some ''Thanks!'') 0) (Some ''T2'')
                  scenario_message []) =
      [] @ [StoreLookup (Some ''T2''), IntentCall (PStr ''What time do you OPEN?''),
       GenerateCall (PStr ''What time do you OPEN?'')
         \<lparr>intent_analysis = PNone, template_guide = ''be concise''\<rparr>] @ rest)"
  using ai_marker_case_sensitive
          [of "scenario_env (Some ''Thanks!'') 0" "[]" "Some ''T3''"
              "the (scenario_store (Some ''T3''))" "PStr ''What time do you OPEN?''"
              scenario_message]
        ai_marker_case_sensitive
          [of "scenario_env (Some ''Thanks!'') 0" "[]" "Some ''T2''"
              "the (scenario_store (Some ''T2''))" "PStr ''What time do you OPEN?''"
              scenario_message]
  by (simp add: scenario_env_def scenario_store_def scenario_message_def dict_get_def)

section \<open>Events and state of a tick\<close>

lemma polls_of_append: "polls_of u (xs @ ys) = polls_of u xs + polls_of u ys"
  by (simp add: polls_of_def)

lemma should_reply_snd:
  "snd (should_reply m cfg tr) = tr \<or> (\<exists>e. snd (should_reply m cfg tr) = tr @ [LogError (ErrorConditions e)])"
  by (simp add: should_reply_def split: sum.splits)

lemma should_reply_ext: "\<exists>evs. snd (should_reply m cfg tr) = tr @ evs \<and> (\<forall>u. GatewayPoll u \<notin> set evs)"
  by (auto simp add: should_reply_def split: sum.splits)

lemma get_reply_template_ext:
  "\<exists>evs. snd (get_reply_template env r m tr) = tr @ evs \<and> (\<forall>u. GatewayPoll u \<notin> set evs)"
  by (auto simp add: get_reply_template_def get_reply_template_try_def Let_def
      split: sum.splits option.splits)

lemma process_message_ext:
  "\<exists>evs. process_message env u m cfg tr = tr @ evs \<and> (\<forall>v. GatewayPoll v \<notin> set evs)"
proof -
  obtain ok tr1 where sr: "should_reply m cfg tr = (ok, tr1)" by (cases "should_reply m cfg tr")
  from should_reply_ext [of m cfg tr] sr obtain e1
    where e1: "tr1 = tr @ e1" "\<forall>u. GatewayPoll u \<notin> set e1" by auto
  obtain t tr2 where gt: "get_reply_template env (template_id cfg) m tr1 = (t, tr2)"
    by (cases "get_reply_template env (template_id cfg) m tr1")
  from get_reply_template_ext [of env "template_id cfg" m tr1] gt obtain e2
    where e2: "tr2 = tr1 @ e2" "\<forall>u. GatewayPoll u \<notin> set e2" by auto
  show ?thesis
    using sr gt e1 e2
    by (auto simp add: process_message_def process_message_try_def Let_def
        split: sum.splits option.splits prod.splits if_splits)
qed

lemma process_messages_ext:
  "\<exists>evs. process_messages env u cfg ms tr = tr @ evs \<and> (\<forall>v. GatewayPoll v \<notin> set evs)"
proof (induction ms arbitrary: tr)
  case Nil
  then show ?case by simp
next
  case (Cons m ms)
  from process_message_ext [of env u m cfg tr] obtain e1
    where e1: "process_message env u m cfg tr = tr @ e1" "\<forall>v. GatewayPoll v \<notin> set e1" by auto
  from Cons.IH [of "tr @ e1"] obtain e2
    where e2: "process_messages env u cfg ms (tr @ e1) = (tr @ e1) @ e2" "\<forall>v. GatewayPoll v \<notin> set e2"
    by auto
  show ?case using e1 e2 by auto
qed

lemma polls_of_no_poll: "\<forall>v. GatewayPoll v \<notin> set evs \<Longrightarrow> polls_of u evs = 0"
  by (auto simp add: polls_of_def filter_empty_conv)

lemma polls_of_process_messages:
  "polls_of v (process_messages env u cfg ms tr) = polls_of v tr"
  using process_messages_ext [of env u cfg ms tr]
  by (auto simp add: polls_of_append polls_of_no_poll)

lemma check_account_skip:
  "checked_recently (last_check_times st) u (clock env tr) \<Longrightarrow>
   check_account env (u, c) (st, tr) = (st, tr @ [ClockRead])"
  by (simp add: check_account_def check_account_try_def)

lemma check_account_fault:
  "\<not> checked_recently (last_check_times st) u (clock env tr) \<Longrightarrow>
   gw_check_new_messages env (tr @ [ClockRead]) u = Inl e \<Longrightarrow>
   check_account env (u, c) (st, tr) =
     (st, tr @ [ClockRead, GatewayPoll u, LogError (ErrorChecking u e)])"
  by (simp add: check_account_def check_account_try_def)

lemma check_account_ok:
  "\<not> checked_recently (last_check_times st) u (clock env tr) \<Longrightarrow>
   gw_check_new_messages env (tr @ [ClockRead]) u = Inr ms \<Longrightarrow>
   check_account env (u, c) (st, tr) =
     (st\<lparr>last_check_times := (last_check_times st)(u \<mapsto> clock env tr)\<rparr>,
      process_messages env u c ms (tr @ [ClockRead, GatewayPoll u]))"
  by (simp add: check_account_def check_account_try_def)

lemma check_account_cases:
  obtains (skip) "checked_recently (last_check_times st) u (clock env tr)"
      "check_account env (u, c) (st, tr) = (st, tr @ [ClockRead])"
  | (fault) e where "\<not> checked_recently (last_check_times st) u (clock env tr)"
      "gw_check_new_messages env (tr @ [ClockRead]) u = Inl e"
      "check_account env (u, c) (st, tr) =
         (st, tr @ [ClockRead, GatewayPoll u, LogError (ErrorChecking u e)])"
  | (ok) ms where "\<not> checked_recently (last_check_times st) u (clock env tr)"
      "gw_check_new_messages env (tr @ [ClockRead]) u = Inr ms"
      "check_account env (u, c) (st, tr) =
         (st\<lparr>last_check_times := (last_check_times st)(u \<mapsto> clock env tr)\<rparr>,
          process_messages env u c ms (tr @ [ClockRead, GatewayPoll u]))"
proof (cases "checked_recently (last_check_times st) u (clock env tr)")
  case True
  then show ?thesis using skip check_account_skip by blast
next
  case False
  show ?thesis
  proof (cases "gw_check_new_messages env (tr @ [ClockRead]) u")
    case (Inl e)
    then show ?thesis using fault False check_account_fault by blast
  next
    case (Inr ms)
    then show ?thesis using ok False check_account_ok by blast
  qed
qed

lemma check_account_frame:
  "active_configs (fst (check_account env (u, c) (st, tr))) = active_configs st \<and>
   is_running (fst (check_account env (u, c) (st, tr))) = is_running st \<and>
   (\<forall>v. v \<noteq> u \<longrightarrow> last_check_times (fst (check_account env (u, c) (st, tr))) v = last_check_times st v)"
  by (cases rule: check_account_cases [of st u env tr c]) auto

lemma check_account_ext:
  "\<exists>evs. snd (check_account env (u, c) (st, tr)) = tr @ evs \<and>
         (\<forall>v. v \<noteq> u \<longrightarrow> GatewayPoll v \<notin> set evs)"
proof (cases rule: check_account_cases [of st u env tr c])
  case skip
  then show ?thesis by auto
next
  case (fault e)
  then show ?thesis by auto
next
  case (ok ms)
  from process_messages_ext [of env u c ms "tr @ [ClockRead, GatewayPoll u]"]
  obtain evs where "process_messages env u c ms (tr @ [ClockRead, GatewayPoll u]) =
      (tr @ [ClockRead, GatewayPoll u]) @ evs" "\<forall>v. GatewayPoll v \<notin> set evs" by blast
  with ok show ?thesis by auto
qed

lemma check_account_due_polls:
  assumes "\<not> checked_recently (last_check_times st) u (clock env tr)"
  shows "polls_of u (snd (check_account env (u, c) (st, tr))) = polls_of u tr + 1"
proof (cases rule: check_account_cases [of st u env tr c])
  case skip
  with assms show ?thesis by simp
next
  case (fault e)
  then show ?thesis by (simp add: polls_of_def)
next
  case (ok ms)
  then show ?thesis
    by (simp add: polls_of_process_messages) (simp add: polls_of_def)
qed

lemma check_accounts_append:
  "check_accounts env (xs @ ys) s = check_accounts env ys (check_accounts env xs s)"
  by (induction xs arbitrary: s) auto

lemma check_accounts_frame:
  "active_configs (fst (check_accounts env items s)) = active_configs (fst s) \<and>
   is_running (fst (check_accounts env items s)) = is_running (fst s)"
proof (induction items arbitrary: s)
  case Nil
  then show ?case by simp
next
  case (Cons item items)
  obtain u c where item: "item = (u, c)" by (cases item)
  obtain st tr where s: "s = (st, tr)" by (cases s)
  show ?case using Cons.IH [of "check_account env item s"] check_account_frame [of env u c st tr]
    by (simp add: item s)
qed

lemma check_accounts_other:
  assumes "u \<notin> fst ` set items"
  shows "last_check_times (fst (check_accounts env items s)) u = last_check_times (fst s) u \<and>
         polls_of u (snd (check_accounts env items s)) = polls_of u (snd s)"
  using assms
proof (induction items arbitrary: s)
  case Nil
  then show ?case by simp
next
  case (Cons item items)
  obtain v c where item: "item = (v, c)" by (cases item)
  obtain st tr where s: "s = (st, tr)" by (cases s)
  from Cons.prems item have ne: "u \<noteq> v" and rest: "u \<notin> fst ` set items" by auto
  from check_account_ext [of env v c st tr] obtain evs
    where evs: "snd (check_account env (v, c) (st, tr)) = tr @ evs"
      "\<forall>w. w \<noteq> v \<longrightarrow> GatewayPoll w \<notin> set evs" by blast
  from evs ne have "polls_of u evs = 0"
    by (auto simp add: polls_of_def filter_empty_conv)
  with evs have p: "polls_of u (snd (check_account env (v, c) (st, tr))) = polls_of u tr"
    by (simp add: polls_of_append)
  from check_account_frame [of env v c st tr] ne
  have l: "last_check_times (fst (check_account env (v, c) (st, tr))) u = last_check_times st u"
    by simp
  show ?case using Cons.IH [OF rest, of "check_account env item s"] p l
    by (simp add: item s)
qed

lemma check_accounts_ext:
  "\<exists>evs. snd (check_accounts env items s) = snd s @ evs"
proof (induction items arbitrary: s)
  case Nil
  then show ?case by simp
next
  case (Cons item items)
  obtain v c where item: "item = (v, c)" by (cases item)
  obtain st tr where s: "s = (st, tr)" by (cases s)
  from check_account_ext [of env v c st tr] obtain e1
    where e1: "snd (check_account env (v, c) (st, tr)) = tr @ e1" by blast
  from Cons.IH [of "check_account env item s"] obtain e2
    where "snd (check_accounts env items (check_account env item s)) =
             snd (check_account env item s) @ e2" by blast
  with e1 show ?case by (simp add: item s)
qed

lemma split_distinct_item:
  assumes "distinct (map fst items)" and "(u, c) \<in> set items"
  obtains xs ys where "items = xs @ (u, c) # ys" "u \<notin> fst ` set xs" "u \<notin> fst ` set ys"
proof -
  from assms(2) obtain xs ys where sp: "items = xs @ (u, c) # ys"
    by (meson split_list)
  with assms(1) have "u \<notin> fst ` set xs" "u \<notin> fst ` set ys" by auto
  with sp show ?thesis using that by blast
qed

lemma never_polled_tick:
  assumes "u \<notin> fst ` set (active_configs (fst s))"
  shows "polls_of u (snd (check_new_messages env s)) = polls_of u (snd s) \<and>
         active_configs (fst (check_new_messages env s)) = active_configs (fst s)"
  using check_accounts_other [OF assms, of env s] check_accounts_frame [of env "active_configs (fst s)" s]
  by (simp add: check_new_messages_def)

lemma never_polled_ticks:
  assumes "u \<notin> fst ` set (active_configs (fst s))"
  shows "polls_of u (snd ((check_new_messages env ^^ n) s)) = polls_of u (snd s) \<and>
         active_configs (fst ((check_new_messages env ^^ n) s)) = active_configs (fst s)"
proof (induction n)
  case 0
  then show ?case by simp
next
  case (Suc n)
  with assms have "u \<notin> fst ` set (active_configs (fst ((check_new_messages env ^^ n) s)))"
    by simp
  from never_polled_tick [OF this, of env] Suc show ?case by simp
qed

lemma checked_recently_at:
  "lct1 u = lct2 u \<Longrightarrow> checked_recently lct1 u now = checked_recently lct2 u now"
  by (simp add: checked_recently_def)

lemma tick_account_segment:
  assumes d: "distinct (map fst (active_configs st))" and i: "(u, c) \<in> set (active_configs st)"
  obtains xs ys st1 tr1 where
    "active_configs st = xs @ (u, c) # ys"
    "check_accounts env xs (st, tr) = (st1, tr1)"
    "last_check_times st1 u = last_check_times st u"
    "polls_of u tr1 = polls_of u tr"
    "\<exists>pre. tr1 = tr @ pre"
    "check_new_messages env (st, tr) = check_accounts env ys (check_account env (u, c) (st1, tr1))"
    "u \<notin> fst ` set ys"
proof -
  from split_distinct_item [OF d i] obtain xs ys
    where sp: "active_configs st = xs @ (u, c) # ys" "u \<notin> fst ` set xs" "u \<notin> fst ` set ys"
    by blast
  obtain st1 tr1 where s1: "check_accounts env xs (st, tr) = (st1, tr1)"
    by (cases "check_accounts env xs (st, tr)")
  from check_accounts_other [OF sp(2), of env "(st, tr)"] s1
  have o: "last_check_times st1 u = last_check_times st u" "polls_of u tr1 = polls_of u tr"
    by simp_all
  from check_accounts_ext [of env xs "(st, tr)"] s1 have e: "\<exists>pre. tr1 = tr @ pre" by simp
  have "check_new_messages env (st, tr) =
          check_accounts env ys (check_account env (u, c) (st1, tr1))"
    by (simp add: check_new_messages_def sp(1) check_accounts_append s1)
  with sp s1 o e show ?thesis using that by blast
qed

lemma tick_skips:
  assumes d: "distinct (map fst (active_configs st))" and i: "(u, c) \<in> set (active_configs st)"
    and r: "\<forall>h. checked_recently (last_check_times st) u (clock env h)"
  shows "polls_of u (snd (check_new_messages env (st, tr))) = polls_of u tr \<and>
         last_check_times (fst (check_new_messages env (st, tr))) u = last_check_times st u"
proof -
  from tick_account_segment [OF d i, of env tr] obtain xs ys st1 tr1 where
    seg: "last_check_times st1 u = last_check_times st u"
      "polls_of u tr1 = polls_of u tr"
      "check_new_messages env (st, tr) = check_accounts env ys (check_account env (u, c) (st1, tr1))"
      "u \<notin> fst ` set ys"
    by metis
  from r seg(1) checked_recently_at [of "last_check_times st1" u "last_check_times st"]
  have "checked_recently (last_check_times st1) u (clock env tr1)" by simp
  from check_account_skip [OF this, of c]
  have ca: "check_account env (u, c) (st1, tr1) = (st1, tr1 @ [ClockRead])" .
  from check_accounts_other [OF seg(4), of env "(st1, tr1 @ [ClockRead])"] seg ca
  show ?thesis by (simp add: polls_of_append) (simp add: polls_of_def)
qed

lemma tick_polls_due:
  assumes d: "distinct (map fst (active_configs st))" and i: "(u, c) \<in> set (active_configs st)"
    and r: "\<forall>h. \<not> checked_recently (last_check_times st) u (clock env h)"
  shows "polls_of u (snd (check_new_messages env (st, tr))) = polls_of u tr + 1"
proof -
  from tick_account_segment [OF d i, of env tr] obtain xs ys st1 tr1 where
    seg: "last_check_times st1 u = last_check_times st u"
      "polls_of u tr1 = polls_of u tr"
      "check_new_messages env (st, tr) = check_accounts env ys (check_account env (u, c) (st1, tr1))"
      "u \<notin> fst ` set ys"
    by metis
  from r seg(1) checked_recently_at [of "last_check_times st1" u "last_check_times st"]
  have "\<not> checked_recently (last_check_times st1) u (clock env tr1)" by simp
  from check_account_due_polls [OF this, of c]
  have "polls_of u (snd (check_account env (u, c) (st1, tr1))) = polls_of u tr1 + 1" .
  with check_accounts_other [OF seg(4), of env "check_account env (u, c) (st1, tr1)"] seg
  show ?thesis by simp
qed

lemma tick_records_time:
  assumes d: "distinct (map fst (active_configs st))" and i: "(u, c) \<in> set (active_configs st)"
    and r: "\<forall>h. \<not> checked_recently (last_check_times st) u (clock env h)"
    and g: "\<forall>h. \<exists>ms. gw_check_new_messages env h u = Inr ms"
  shows "\<exists>h. last_check_times (fst (check_new_messages env (st, tr))) u = Some (clock env h)"
proof -
  from tick_account_segment [OF d i, of env tr] obtain xs ys st1 tr1 where
    seg: "last_check_times st1 u = last_check_times st u"
      "polls_of u tr1 = polls_of u tr"
      "check_new_messages env (st, tr) = check_accounts env ys (check_account env (u, c) (st1, tr1))"
      "u \<notin> fst ` set ys"
    by metis
  from r seg(1) checked_recently_at [of "last_check_times st1" u "last_check_times st"]
  have nr: "\<not> checked_recently (last_check_times st1) u (clock env tr1)" by simp
  from g obtain ms where "gw_check_new_messages env (tr1 @ [ClockRead]) u = Inr ms" by blast
  from check_account_ok [OF nr this, of c]
  have "last_check_times (fst (check_account env (u, c) (st1, tr1))) u = Some (clock env tr1)"
    by simp
  with check_accounts_other [OF seg(4), of env "check_account env (u, c) (st1, tr1)"] seg
  show ?thesis by auto
qed

lemma near_checked_recently:
  assumes "lct u = Some t" and "total_seconds (now - t) \<le> 10"
  shows "checked_recently lct u now"
  using assms by (simp add: checked_recently_def AUTO_REPLY_CHECK_INTERVAL_def)

lemma two_ticks:
  assumes d: "distinct (map fst (active_configs st))" and i: "(u, c) \<in> set (active_configs st)"
    and r: "\<forall>h. \<not> checked_recently (last_check_times st) u (clock env h)"
    and g: "\<forall>h. \<exists>ms. gw_check_new_messages env h u = Inr ms"
    and n: "\<forall>h h'. total_seconds (clock env h' - clock env h) \<le> 10"
  shows "polls_of u (snd (check_new_messages env (check_new_messages env (st, tr)))) =
           polls_of u tr + 1"
proof -
  obtain st1 tr1 where t1: "check_new_messages env (st, tr) = (st1, tr1)"
    by (cases "check_new_messages env (st, tr)")
  from tick_polls_due [OF d i r, of tr] t1 have p1: "polls_of u tr1 = polls_of u tr + 1" by simp
  from tick_records_time [OF d i r g, of tr] t1 obtain h
    where h: "last_check_times st1 u = Some (clock env h)" by auto
  from check_accounts_frame [of env "active_configs st" "(st, tr)"] t1
  have a1: "active_configs st1 = active_configs st" by (simp add: check_new_messages_def)
  from h n have "\<forall>h'. checked_recently (last_check_times st1) u (clock env h')"
    by (simp add: near_checked_recently)
  from tick_skips [of st1 u c env tr1, OF _ _ this] d i a1
  have "polls_of u (snd (check_new_messages env (st1, tr1))) = polls_of u tr1" by simp
  with p1 t1 show ?thesis by simp
qed

section \<open>The loop and the recorded poll times\<close>

lemma check_account_keeps_times:
  "dom (last_check_times st) \<subseteq> dom (last_check_times (fst (check_account env (u, c) (st, tr))))"
  by (cases rule: check_account_cases [of st u env tr c]) auto

lemma check_accounts_keeps_times:
  "dom (last_check_times (fst s)) \<subseteq> dom (last_check_times (fst (check_accounts env items s)))"
proof (induction items arbitrary: s)
  case Nil
  then show ?case by simp
next
  case (Cons item items)
  obtain u c where item: "item = (u, c)" by (cases item)
  obtain st tr where s: "s = (st, tr)" by (cases s)
  from check_account_keeps_times [of st env u c tr] Cons.IH [of "check_account env item s"]
  show ?case by (simp add: item s)
qed

lemma check_new_messages_keeps_times:
  "dom (last_check_times (fst s)) \<subseteq> dom (last_check_times (fst (check_new_messages env s)))"
  by (simp add: check_new_messages_def check_accounts_keeps_times)

lemma apply_control_times:
  "last_check_times (fst (apply_control ctl s)) = last_check_times (fst s)"
  by (cases ctl; cases s) (simp_all add: stop_def update_config_def)

lemma fold_apply_control_times:
  "last_check_times (fst (fold apply_control ctls s)) = last_check_times (fst s)"
  by (induction ctls arbitrary: s) (simp_all add: apply_control_times)

lemma asyncio_sleep_times:
  "last_check_times (fst (asyncio_sleep env n s)) = last_check_times (fst s)"
  by (cases s) (simp add: asyncio_sleep_def fold_apply_control_times)

lemma start_loop_iterates:
  assumes "start_loop tick slp s = Some s'"
  shows "\<exists>n. s' = (start_iteration tick slp ^^ n) s \<and> \<not> is_running (fst s') \<and>
             (\<forall>k<n. is_running (fst ((start_iteration tick slp ^^ k) s)))"
proof (rule start_loop.raw_induct
    [where P = "\<lambda>tick slp s s'.
        \<exists>n. s' = (start_iteration tick slp ^^ n) s \<and> \<not> is_running (fst s') \<and>
            (\<forall>k<n. is_running (fst ((start_iteration tick slp ^^ k) s)))",
     OF _ assms])
  fix f :: "(mstate \<Rightarrow> (exn + unit) \<times> mstate) \<Rightarrow> (nat \<Rightarrow> mstate \<Rightarrow> mstate) \<Rightarrow> mstate \<Rightarrow> mstate option"
    and tick slp s y
  assume IH: "\<And>tick slp s y. f tick slp s = Some y \<Longrightarrow>
      \<exists>n. y = (start_iteration tick slp ^^ n) s \<and> \<not> is_running (fst y) \<and>
          (\<forall>k<n. is_running (fst ((start_iteration tick slp ^^ k) s)))"
    and eq: "(if is_running (fst s) then f tick slp (start_iteration tick slp s) else Some s) = Some y"
  show "\<exists>n. y = (start_iteration tick slp ^^ n) s \<and> \<not> is_running (fst y) \<and>
          (\<forall>k<n. is_running (fst ((start_iteration tick slp ^^ k) s)))"
  proof (cases "is_running (fst s)")
    case True
    with eq have "f tick slp (start_iteration tick slp s) = Some y" by simp
    from IH [OF this] obtain n where
      n: "y = (start_iteration tick slp ^^ n) (start_iteration tick slp s)"
         "\<not> is_running (fst y)"
         "\<forall>k<n. is_running (fst ((start_iteration tick slp ^^ k) (start_iteration tick slp s)))"
      by blast
    have "\<forall>k<Suc n. is_running (fst ((start_iteration tick slp ^^ k) s))"
    proof (intro allI impI)
      fix k assume "k < Suc n"
      then show "is_running (fst ((start_iteration tick slp ^^ k) s))"
        using True n(3) by (cases k) (simp_all add: funpow_swap1)
    qed
    with n(1,2) show ?thesis
      by (intro exI [of _ "Suc n"]) (simp add: funpow_swap1)
  next
    case False
    with eq have "y = s" by simp
    with False show ?thesis by (intro exI [of _ 0]) simp
  qed
qed

lemma start_loop_returns:
  assumes "\<not> is_running (fst ((start_iteration tick slp ^^ n) s))"
  shows "\<exists>s'. start_loop tick slp s = Some s'"
  using assms
proof (induction n arbitrary: s)
  case 0
  then show ?case by (simp add: start_loop.simps)
next
  case (Suc n)
  show ?case
  proof (cases "is_running (fst s)")
    case True
    from Suc.prems have "\<not> is_running (fst ((start_iteration tick slp ^^ n) (start_iteration tick slp s)))"
      by (simp add: funpow_swap1)
    from Suc.IH [OF this] True show ?thesis
      by (subst start_loop.simps) simp
  next
    case False
    then show ?thesis by (subst start_loop.simps) simp
  qed
qed

lemma funpow_invariant:
  assumes "P s" and "\<And>x. P x \<Longrightarrow> P (f x)"
  shows "P ((f ^^ n) s)"
  using assms by (induction n) simp_all

lemma start_iteration_check_keeps_times:
  "dom (last_check_times (fst s)) \<subseteq>
     dom (last_check_times
       (fst (start_iteration (\<lambda>s. (Inr (), check_new_messages env s)) (asyncio_sleep env) s)))"
  by (simp add: start_iteration_def asyncio_sleep_times check_new_messages_keeps_times)

lemma start_iterates_keep_times:
  "dom (last_check_times (fst s)) \<subseteq>
     dom (last_check_times
       (fst ((start_iteration (\<lambda>s. (Inr (), check_new_messages env s)) (asyncio_sleep env) ^^ k) s)))"
proof (induction k)
  case 0
  then show ?case by simp
next
  case (Suc k)
  from start_iteration_check_keeps_times
         [of "(start_iteration (\<lambda>s. (Inr (), check_new_messages env s)) (asyncio_sleep env) ^^ k) s" env]
       Suc
  show ?case by simp
qed

lemma start_keeps_times:
  assumes "start env (st, tr) = Some s'"
  shows "dom (last_check_times st) \<subseteq> dom (last_check_times (fst s'))"
proof -
  let ?it = "start_iteration (\<lambda>s. (Inr (), check_new_messages env s)) (asyncio_sleep env)"
  let ?s0 = "(st\<lparr>is_running := True\<rparr>, tr @ [LogInfo Starting])"
  from assms have "start_loop (\<lambda>s. (Inr (), check_new_messages env s)) (asyncio_sleep env) ?s0 = Some s'"
    by (simp add: start_def start_with_def)
  from start_loop_iterates [OF this] obtain n where n: "s' = (?it ^^ n) ?s0" by blast
  from start_iterates_keep_times [where s = ?s0 and env = env and k = n] n show ?thesis by simp
qed

lemma update_config_disabled_absent:
  "\<not> is_enabled config \<Longrightarrow>
   username \<notin> fst ` set (active_configs (fst (update_config username config (st, tr))))"
  by (simp add: update_config_def delete_notin_dom)

section \<open>Properties of \<open>update_config\<close>\<close>

text \<open>
  C8, as stated, fails: disabling an account leaves its last-poll time in
  \<open>last_check_times\<close>.
\<close>

theorem update_config_keeps_cursor_counterexample:
  "last_check_times
     (fst (update_config ''acct'' \<lparr>is_enabled = False, template_id = None, conditions = []\<rparr>
             (\<lparr>is_running = True,
               active_configs = [(''acct'', scenario_config ''T1'')],
               last_check_times = [''acct'' \<mapsto> 1000000]\<rparr>, []))) ''acct''
   = Some 1000000"
  by (simp add: update_config_def)

text \<open>
  C8, amended: \<open>update_config\<close> never changes \<open>last_check_times\<close>; with a config that
  is not enabled the account leaves the active set and its last-poll time stays recorded.
  Nothing in the manager removes a recorded time: \<open>stop\<close> and the sleep, with the calls
  that other tasks make meanwhile, leave \<open>last_check_times\<close> as it is, and a tick, any
  number of turns of the loop and a whole run of \<open>start\<close> keep every key that was
  there.
\<close>

theorem last_check_times_never_discarded:
  "last_check_times (fst (update_config username config (st, tr))) = last_check_times st \<and>
   (\<not> is_enabled config \<longrightarrow>
      username \<notin> fst ` set (active_configs (fst (update_config username config (st, tr))))) \<and>
   last_check_times (fst (stop (st, tr))) = last_check_times st \<and>
   dom (last_check_times st) \<subseteq> dom (last_check_times (fst (check_new_messages env (st, tr)))) \<and>
   last_check_times (fst (asyncio_sleep env n (st, tr))) = last_check_times st \<and>
   (\<forall>k. dom (last_check_times st) \<subseteq>
      dom (last_check_times
        (fst ((start_iteration (\<lambda>s. (Inr (), check_new_messages env s)) (asyncio_sleep env) ^^ k)
               (st, tr))))) \<and>
   (\<forall>s'. start env (st, tr) = Some s' \<longrightarrow>
      dom (last_check_times st) \<subseteq> dom (last_check_times (fst s')))"
proof (intro conjI allI impI)
  fix k
  show "dom (last_check_times st) \<subseteq>
      dom (last_check_times
        (fst ((start_iteration (\<lambda>s. (Inr (), check_new_messages env s)) (asyncio_sleep env) ^^ k)
               (st, tr))))"
    using start_iterates_keep_times [where s = "(st, tr)" and env = env and k = k] by simp
next
  show "last_check_times (fst (update_config username config (st, tr))) = last_check_times st"
    by (simp add: update_config_def)
  show "last_check_times (fst (stop (st, tr))) = last_check_times st"
    by (simp add: stop_def)
  show "dom (last_check_times st) \<subseteq> dom (last_check_times (fst (check_new_messages env (st, tr))))"
    using check_new_messages_keeps_times [of "(st, tr)" env] by simp
  show "last_check_times (fst (asyncio_sleep env n (st, tr))) = last_check_times st"
    by (simp add: asyncio_sleep_times)
qed (simp_all add: update_config_disabled_absent start_keeps_times)

lemma scenario_run:
  "start (scenario_env None 0) (scenario_manager, []) =
     Some (scenario_manager,
           [LogInfo Starting, ClockRead, Sleep 60, LogInfo Stopping])"
  apply (simp add: start_def start_with_def scenario_manager_def)
  apply (subst start_loop.simps)
  apply (simp add: start_iteration_def check_new_messages_def check_account_def
      check_account_try_def checked_recently_def total_seconds_def AUTO_REPLY_CHECK_INTERVAL_def
      scenario_env_def asyncio_sleep_def stop_def)
  apply (subst start_loop.simps)
  apply simp
  done

theorem last_check_times_never_discarded_witness:
  "last_check_times
     (fst (update_config ''acct'' \<lparr>is_enabled = False, template_id = None, conditions = []\<rparr>
             (scenario_manager, []))) = [''acct'' \<mapsto> 1000000] \<and>
   ''acct'' \<notin> fst ` set (active_configs
     (fst (update_config ''acct'' \<lparr>is_enabled = False, template_id = None, conditions = []\<rparr>
             (scenario_manager, [])))) \<and>
   (\<exists>s'. start (scenario_env None 0) (scenario_manager, []) = Some s' \<and>
         ''acct'' \<in> dom (last_check_times (fst s')))"
  using last_check_times_never_discarded
          [of "''acct''" "\<lparr>is_enabled = False, template_id = None, conditions = []\<rparr>"
              scenario_manager "[]" "scenario_env None 0" 60]
        scenario_run
  by (simp add: scenario_manager_def)

section \<open>The active set\<close>

lemma apply_control_absent:
  assumes "u \<notin> fst ` set (active_configs (fst s))"
    and "\<forall>c. ctl = UpdateConfig u c \<longrightarrow> \<not> is_enabled c"
  shows "u \<notin> fst ` set (active_configs (fst (apply_control ctl s))) \<and>
         polls_of u (snd (apply_control ctl s)) = polls_of u (snd s)"
proof (cases ctl)
  case Stop
  with assms(1) show ?thesis by (cases s) (simp add: stop_def polls_of_def)
next
  case (UpdateConfig v c)
  show ?thesis
  proof (cases "is_enabled c")
    case True
    with assms(2) UpdateConfig have "v \<noteq> u" by auto
    with assms(1) UpdateConfig True show ?thesis
      by (cases s) (simp add: update_config_def polls_of_def dom_update)
  next
    case False
    from dom_delete_subset [of v "active_configs (fst s)"] assms(1)
    have "u \<notin> fst ` set (AList.delete v (active_configs (fst s)))" by blast
    with UpdateConfig False show ?thesis
      by (cases s) (simp add: update_config_def polls_of_def)
  qed
qed

lemma fold_apply_control_absent:
  assumes "u \<notin> fst ` set (active_configs (fst s))"
    and "\<forall>c. UpdateConfig u c \<in> set ctls \<longrightarrow> \<not> is_enabled c"
  shows "u \<notin> fst ` set (active_configs (fst (fold apply_control ctls s))) \<and>
         polls_of u (snd (fold apply_control ctls s)) = polls_of u (snd s)"
  using assms
proof (induction ctls arbitrary: s)
  case Nil
  then show ?case by simp
next
  case (Cons ctl ctls)
  from Cons.prems(2) have h: "\<forall>c. ctl = UpdateConfig u c \<longrightarrow> \<not> is_enabled c"
    and t: "\<forall>c. UpdateConfig u c \<in> set ctls \<longrightarrow> \<not> is_enabled c" by auto
  from apply_control_absent [OF Cons.prems(1) h]
  have a: "u \<notin> fst ` set (active_configs (fst (apply_control ctl s)))"
    and p: "polls_of u (snd (apply_control ctl s)) = polls_of u (snd s)" by simp_all
  from Cons.IH [OF a t] p show ?case by simp
qed

lemma asyncio_sleep_absent:
  assumes "u \<notin> fst ` set (active_configs (fst s))"
    and "\<forall>h c. UpdateConfig u c \<in> set (other_tasks env h) \<longrightarrow> \<not> is_enabled c"
  shows "u \<notin> fst ` set (active_configs (fst (asyncio_sleep env n s))) \<and>
         polls_of u (snd (asyncio_sleep env n s)) = polls_of u (snd s)"
proof -
  obtain st tr where s: "s = (st, tr)" by (cases s)
  from assms(1) s have a: "u \<notin> fst ` set (active_configs (fst (st, tr @ [Sleep n])))" by simp
  from assms(2) have b: "\<forall>c. UpdateConfig u c \<in> set (other_tasks env (tr @ [Sleep n])) \<longrightarrow> \<not> is_enabled c"
    by blast
  from fold_apply_control_absent [OF a b] show ?thesis
    by (simp add: s asyncio_sleep_def polls_of_def)
qed

lemma start_iteration_absent:
  assumes "u \<notin> fst ` set (active_configs (fst s))"
    and "\<forall>h c. UpdateConfig u c \<in> set (other_tasks env h) \<longrightarrow> \<not> is_enabled c"
  shows "u \<notin> fst ` set (active_configs
           (fst (start_iteration (\<lambda>s. (Inr (), check_new_messages env s)) (asyncio_sleep env) s))) \<and>
         polls_of u
           (snd (start_iteration (\<lambda>s. (Inr (), check_new_messages env s)) (asyncio_sleep env) s)) =
         polls_of u (snd s)"
proof -
  from never_polled_tick [OF assms(1), of env]
  have a: "u \<notin> fst ` set (active_configs (fst (check_new_messages env s)))"
    and p: "polls_of u (snd (check_new_messages env s)) = polls_of u (snd s)"
    using assms(1) by simp_all
  from asyncio_sleep_absent [OF a assms(2), of AUTO_REPLY_CHECK_INTERVAL] p
  show ?thesis by (simp add: start_iteration_def)
qed

lemma start_iterations_absent:
  assumes "u \<notin> fst ` set (active_configs (fst s))"
    and "\<forall>h c. UpdateConfig u c \<in> set (other_tasks env h) \<longrightarrow> \<not> is_enabled c"
  shows "u \<notin> fst ` set (active_configs
           (fst ((start_iteration (\<lambda>s. (Inr (), check_new_messages env s)) (asyncio_sleep env) ^^ n) s))) \<and>
         polls_of u
           (snd ((start_iteration (\<lambda>s. (Inr (), check_new_messages env s)) (asyncio_sleep env) ^^ n) s)) =
         polls_of u (snd s)"
proof (induction n)
  case 0
  with assms(1) show ?case by simp
next
  case (Suc n)
  then have a: "u \<notin> fst ` set (active_configs
           (fst ((start_iteration (\<lambda>s. (Inr (), check_new_messages env s)) (asyncio_sleep env) ^^ n) s)))"
    by simp
  from start_iteration_absent [OF a assms(2)] Suc show ?case by simp
qed

lemma update_config_log_polls:
  "polls_of u (snd (update_config v config (st, tr))) = polls_of u tr"
  by (simp add: update_config_def polls_of_def)

text \<open>
  C3: \<open>update_config\<close> with an enabled config makes the account's entry in the active set
  that config, whether or not there was one, and leaves the other entries; with a config
  that is not enabled it removes the entry, and does nothing to the mapping when there is
  none; the keys of the mapping stay distinct and it touches nothing else of the manager.
  An account with no entry is not polled by a tick, nor by any number of turns of the
  loop during which no other task enables it; in particular the tick after a disabling
  \<open>update_config\<close> does not poll the account.
\<close>

theorem update_config_active_set:
  "(is_enabled config \<longrightarrow>
      map_of (active_configs (fst (update_config u config (st, tr)))) =
        (map_of (active_configs st))(u \<mapsto> config)) \<and>
   (\<not> is_enabled config \<longrightarrow>
      map_of (active_configs (fst (update_config u config (st, tr)))) =
        (map_of (active_configs st))(u := None) \<and>
      u \<notin> fst ` set (active_configs (fst (update_config u config (st, tr))))) \<and>
   (\<not> is_enabled config \<and> u \<notin> fst ` set (active_configs st) \<longrightarrow>
      active_configs (fst (update_config u config (st, tr))) = active_configs st) \<and>
   (distinct (map fst (active_configs st)) \<longrightarrow>
      distinct (map fst (active_configs (fst (update_config u config (st, tr)))))) \<and>
   is_running (fst (update_config u config (st, tr))) = is_running st \<and>
   last_check_times (fst (update_config u config (st, tr))) = last_check_times st \<and>
   (u \<notin> fst ` set (active_configs st) \<longrightarrow>
      polls_of u (snd (check_new_messages env (st, tr))) = polls_of u tr) \<and>
   (u \<notin> fst ` set (active_configs st) \<and>
    (\<forall>h c. UpdateConfig u c \<in> set (other_tasks env h) \<longrightarrow> \<not> is_enabled c) \<longrightarrow>
      (\<forall>n. polls_of u
         (snd ((start_iteration (\<lambda>s. (Inr (), check_new_messages env s)) (asyncio_sleep env) ^^ n)
                 (st, tr))) = polls_of u tr)) \<and>
   (\<not> is_enabled config \<longrightarrow>
      polls_of u (snd (check_new_messages env (update_config u config (st, tr)))) =
        polls_of u tr)"
proof (intro conjI impI allI)
  assume "is_enabled config"
  then show "map_of (active_configs (fst (update_config u config (st, tr)))) =
        (map_of (active_configs st))(u \<mapsto> config)"
    by (simp add: update_config_def update_conv')
next
  assume "\<not> is_enabled config"
  then show "map_of (active_configs (fst (update_config u config (st, tr)))) =
        (map_of (active_configs st))(u := None)"
    by (simp add: update_config_def delete_conv')
next
  assume "\<not> is_enabled config"
  then show "u \<notin> fst ` set (active_configs (fst (update_config u config (st, tr))))"
    by (rule update_config_disabled_absent)
next
  assume "\<not> is_enabled config \<and> u \<notin> fst ` set (active_configs st)"
  then show "active_configs (fst (update_config u config (st, tr))) = active_configs st"
    by (simp add: update_config_def)
next
  assume "distinct (map fst (active_configs st))"
  then show "distinct (map fst (active_configs (fst (update_config u config (st, tr)))))"
    by (simp add: update_config_def distinct_update distinct_delete)
next
  show "is_running (fst (update_config u config (st, tr))) = is_running st"
    by (simp add: update_config_def)
next
  show "last_check_times (fst (update_config u config (st, tr))) = last_check_times st"
    by (simp add: update_config_def)
next
  assume "u \<notin> fst ` set (active_configs st)"
  with never_polled_tick [of u "(st, tr)" env]
  show "polls_of u (snd (check_new_messages env (st, tr))) = polls_of u tr" by simp
next
  fix n
  assume a: "u \<notin> fst ` set (active_configs st) \<and>
    (\<forall>h c. UpdateConfig u c \<in> set (other_tasks env h) \<longrightarrow> \<not> is_enabled c)"
  then have "u \<notin> fst ` set (active_configs (fst (st, tr)))" by simp
  from start_iterations_absent [OF this, of env n] a
  show "polls_of u
         (snd ((start_iteration (\<lambda>s. (Inr (), check_new_messages env s)) (asyncio_sleep env) ^^ n)
                 (st, tr))) = polls_of u tr" by simp
next
  assume d: "\<not> is_enabled config"
  from update_config_disabled_absent [OF d, of u st tr]
       never_polled_tick [of u "update_config u config (st, tr)" env]
  show "polls_of u (snd (check_new_messages env (update_config u config (st, tr)))) =
        polls_of u tr"
    by (simp add: update_config_log_polls)
qed

theorem update_config_active_set_witness:
  "map_of (active_configs (fst (update_config ''b'' (scenario_config ''T2'') (scenario_manager, []))))
     = [''acct'' \<mapsto> scenario_config ''T1'', ''b'' \<mapsto> scenario_config ''T2''] \<and>
   map_of (active_configs
     (fst (update_config ''acct'' \<lparr>is_enabled = False, template_id = None, conditions = []\<rparr>
             (scenario_manager, [])))) = Map.empty \<and>
   active_configs
     (fst (update_config ''b'' \<lparr>is_enabled = False, template_id = None, conditions = []\<rparr>
             (scenario_manager, []))) = active_configs scenario_manager \<and>
   polls_of ''b''
     (snd ((start_iteration (\<lambda>s. (Inr (), check_new_messages (scenario_env None 0) s))
              (asyncio_sleep (scenario_env None 0)) ^^ 2) (scenario_manager, []))) = 0 \<and>
   polls_of ''acct''
     (snd (check_new_messages (scenario_env None 0)
        (update_config ''acct'' \<lparr>is_enabled = False, template_id = None, conditions = []\<rparr>
           (scenario_manager, [])))) = 0"
proof -
  have o: "\<forall>h c. UpdateConfig ''b'' c \<in> set (other_tasks (scenario_env None 0) h) \<longrightarrow> \<not> is_enabled c"
    by (simp add: scenario_env_def)
  have e: "is_enabled (scenario_config ''T2'')"
    by (simp add: scenario_config_def)
  have n: "''b'' \<notin> fst ` set (active_configs scenario_manager)"
    by (simp add: scenario_manager_def)
  have d: "distinct (map fst (active_configs scenario_manager))"
    by (simp add: scenario_manager_def)
  have m: "map_of (active_configs scenario_manager) = [''acct'' \<mapsto> scenario_config ''T1'']"
    by (simp add: scenario_manager_def)
  from update_config_active_set
         [of "scenario_config ''T2''" "''b''" scenario_manager "[]" "scenario_env None 0"] e m
  have 1: "map_of (active_configs (fst (update_config ''b'' (scenario_config ''T2'') (scenario_manager, []))))
     = [''acct'' \<mapsto> scenario_config ''T1'', ''b'' \<mapsto> scenario_config ''T2'']"
    by simp
  from update_config_active_set
         [of "\<lparr>is_enabled = False, template_id = None, conditions = []\<rparr>" "''acct''"
             scenario_manager "[]" "scenario_env None 0"] m
  have 2: "map_of (active_configs
     (fst (update_config ''acct'' \<lparr>is_enabled = False, template_id = None, conditions = []\<rparr>
             (scenario_manager, [])))) = Map.empty"
    and 5: "polls_of ''acct''
     (snd (check_new_messages (scenario_env None 0)
        (update_config ''acct'' \<lparr>is_enabled = False, template_id = None, conditions = []\<rparr>
           (scenario_manager, [])))) = 0"
    by (simp_all add: polls_of_def)
  from update_config_active_set
         [of "\<lparr>is_enabled = False, template_id = None, conditions = []\<rparr>" "''b''"
             scenario_manager "[]" "scenario_env None 0"] n o d
  have 3: "active_configs
     (fst (update_config ''b'' \<lparr>is_enabled = False, template_id = None, conditions = []\<rparr>
             (scenario_manager, []))) = active_configs scenario_manager"
    and 4: "polls_of ''b''
     (snd ((start_iteration (\<lambda>s. (Inr (), check_new_messages (scenario_env None 0) s))
              (asyncio_sleep (scenario_env None 0)) ^^ 2) (scenario_manager, []))) = 0"
    by (simp_all add: polls_of_def)
  from 1 2 3 4 5 show ?thesis by simp
qed

section \<open>The cooldown of an account\<close>

lemma checked_recently_iff:
  "checked_recently lct u now \<longleftrightarrow> (\<exists>t0. lct u = Some t0 \<and> total_seconds (now - t0) < 60)"
  by (simp add: checked_recently_def AUTO_REPLY_CHECK_INTERVAL_def split: option.splits)

lemma not_checked_recently_iff:
  "\<not> checked_recently lct u now \<longleftrightarrow>
     (lct u = None \<or> (\<exists>t0. lct u = Some t0 \<and> 60 \<le> total_seconds (now - t0)))"
  by (auto simp add: checked_recently_def AUTO_REPLY_CHECK_INTERVAL_def split: option.splits)

lemma check_account_twice:
  assumes due: "\<not> checked_recently (last_check_times st) u (clock env tr)"
    and gw: "gw_check_new_messages env (tr @ [ClockRead]) u = Inr ms"
  shows "polls_of u (snd (check_account env (u, c) (st, tr))) = polls_of u tr + 1"
    and "last_check_times (fst (check_account env (u, c) (st, tr))) u = Some (clock env tr)"
    and "total_seconds (clock env (snd (check_account env (u, c) (st, tr))) - clock env tr) \<le> 10 \<Longrightarrow>
         check_account env (u, c') (check_account env (u, c) (st, tr)) =
           (fst (check_account env (u, c) (st, tr)),
            snd (check_account env (u, c) (st, tr)) @ [ClockRead])"
proof -
  show p: "polls_of u (snd (check_account env (u, c) (st, tr))) = polls_of u tr + 1"
    by (rule check_account_due_polls [OF due])
  show l: "last_check_times (fst (check_account env (u, c) (st, tr))) u = Some (clock env tr)"
    by (simp add: check_account_ok [OF due gw])
  assume "total_seconds (clock env (snd (check_account env (u, c) (st, tr))) - clock env tr) \<le> 10"
  with l have "checked_recently (last_check_times (fst (check_account env (u, c) (st, tr)))) u
                 (clock env (snd (check_account env (u, c) (st, tr))))"
    by (rule near_checked_recently)
  from check_account_skip [OF this, of c']
  show "check_account env (u, c') (check_account env (u, c) (st, tr)) =
           (fst (check_account env (u, c) (st, tr)),
            snd (check_account env (u, c) (st, tr)) @ [ClockRead])"
    by simp
qed

text \<open>
  C2: a check of an account whose recorded last-poll time is less than 60 seconds before
  the clock reading of the check is skipped: the state is as before and the only event is
  the clock reading, so the gateway is not polled; in a tick, an account of the active set
  whose recorded time is less than 60 seconds before every clock reading gets no poll and
  keeps its recorded time. A check that is due (no time recorded, or one 60 seconds old
  or more) and whose gateway call returns polls the gateway once and records the clock
  reading; any later check of the account that reads the clock at most 10 seconds after
  that reading is skipped, so two checks within 10 seconds of each other make exactly one
  gateway poll. The same holds of two ticks one after the other.
\<close>

theorem poll_cooldown:
  "(\<forall>t0. last_check_times st u = Some t0 \<and> total_seconds (clock env tr - t0) < 60 \<longrightarrow>
      check_account env (u, c) (st, tr) = (st, tr @ [ClockRead])) \<and>
   (\<forall>t0. distinct (map fst (active_configs st)) \<and> (u, c) \<in> set (active_configs st) \<and>
         last_check_times st u = Some t0 \<and> (\<forall>h. total_seconds (clock env h - t0) < 60) \<longrightarrow>
      polls_of u (snd (check_new_messages env (st, tr))) = polls_of u tr \<and>
      last_check_times (fst (check_new_messages env (st, tr))) u = Some t0) \<and>
   (\<forall>ms. (last_check_times st u = None \<or>
          (\<exists>t0. last_check_times st u = Some t0 \<and> 60 \<le> total_seconds (clock env tr - t0))) \<and>
         gw_check_new_messages env (tr @ [ClockRead]) u = Inr ms \<longrightarrow>
      polls_of u (snd (check_account env (u, c) (st, tr))) = polls_of u tr + 1 \<and>
      last_check_times (fst (check_account env (u, c) (st, tr))) u = Some (clock env tr) \<and>
      (\<forall>st2 tr2 c2.
         last_check_times st2 u = Some (clock env tr) \<and>
         total_seconds (clock env tr2 - clock env tr) \<le> 10 \<longrightarrow>
           check_account env (u, c2) (st2, tr2) = (st2, tr2 @ [ClockRead])) \<and>
      (total_seconds (clock env (snd (check_account env (u, c) (st, tr))) - clock env tr) \<le> 10 \<longrightarrow>
         polls_of u (snd (check_account env (u, c) (check_account env (u, c) (st, tr)))) =
           polls_of u tr + 1)) \<and>
   (distinct (map fst (active_configs st)) \<and> (u, c) \<in> set (active_configs st) \<and>
    (\<forall>h. last_check_times st u = None \<or>
          (\<exists>t0. last_check_times st u = Some t0 \<and> 60 \<le> total_seconds (clock env h - t0))) \<and>
    (\<forall>h. \<exists>ms. gw_check_new_messages env h u = Inr ms) \<and>
    (\<forall>h h'. total_seconds (clock env h' - clock env h) \<le> 10) \<longrightarrow>
      polls_of u (snd (check_new_messages env (check_new_messages env (st, tr)))) =
        polls_of u tr + 1)"
proof (intro conjI allI impI)
  fix t0
  assume "last_check_times st u = Some t0 \<and> total_seconds (clock env tr - t0) < 60"
  then have "checked_recently (last_check_times st) u (clock env tr)"
    by (simp add: checked_recently_iff)
  then show "check_account env (u, c) (st, tr) = (st, tr @ [ClockRead])"
    by (rule check_account_skip)
next
  fix t0
  assume a: "distinct (map fst (active_configs st)) \<and> (u, c) \<in> set (active_configs st) \<and>
         last_check_times st u = Some t0 \<and> (\<forall>h. total_seconds (clock env h - t0) < 60)"
  then have r: "\<forall>h. checked_recently (last_check_times st) u (clock env h)"
    by (simp add: checked_recently_iff)
  from a have d: "distinct (map fst (active_configs st))" and i: "(u, c) \<in> set (active_configs st)"
    by simp_all
  from tick_skips [OF d i r, of tr] a
  show "polls_of u (snd (check_new_messages env (st, tr))) = polls_of u tr"
    and "last_check_times (fst (check_new_messages env (st, tr))) u = Some t0"
    by simp_all
next
  fix ms
  assume a: "(last_check_times st u = None \<or>
          (\<exists>t0. last_check_times st u = Some t0 \<and> 60 \<le> total_seconds (clock env tr - t0))) \<and>
         gw_check_new_messages env (tr @ [ClockRead]) u = Inr ms"
  then have due: "\<not> checked_recently (last_check_times st) u (clock env tr)"
    by (simp add: not_checked_recently_iff)
  from a have gw: "gw_check_new_messages env (tr @ [ClockRead]) u = Inr ms" by simp
  show "polls_of u (snd (check_account env (u, c) (st, tr))) = polls_of u tr + 1"
    by (rule check_account_twice(1) [OF due gw])
  show "last_check_times (fst (check_account env (u, c) (st, tr))) u = Some (clock env tr)"
    by (rule check_account_twice(2) [OF due gw])
  show "\<And>st2 tr2 c2.
         last_check_times st2 u = Some (clock env tr) \<and>
         total_seconds (clock env tr2 - clock env tr) \<le> 10 \<Longrightarrow>
           check_account env (u, c2) (st2, tr2) = (st2, tr2 @ [ClockRead])"
  proof -
    fix st2 :: AutoReplyManager and tr2 c2
    assume "last_check_times st2 u = Some (clock env tr) \<and>
         total_seconds (clock env tr2 - clock env tr) \<le> 10"
    then have "checked_recently (last_check_times st2) u (clock env tr2)"
      by (simp add: near_checked_recently)
    then show "check_account env (u, c2) (st2, tr2) = (st2, tr2 @ [ClockRead])"
      by (rule check_account_skip)
  qed
  assume n: "total_seconds (clock env (snd (check_account env (u, c) (st, tr))) - clock env tr) \<le> 10"
  from check_account_twice(3) [where c = c and c' = c, OF due gw n]
       check_account_twice(1) [where c = c, OF due gw]
  show "polls_of u (snd (check_account env (u, c) (check_account env (u, c) (st, tr)))) =
           polls_of u tr + 1"
    by (simp add: polls_of_def)
next
  assume a: "distinct (map fst (active_configs st)) \<and> (u, c) \<in> set (active_configs st) \<and>
    (\<forall>h. last_check_times st u = None \<or>
          (\<exists>t0. last_check_times st u = Some t0 \<and> 60 \<le> total_seconds (clock env h - t0))) \<and>
    (\<forall>h. \<exists>ms. gw_check_new_messages env h u = Inr ms) \<and>
    (\<forall>h h'. total_seconds (clock env h' - clock env h) \<le> 10)"
  then have r: "\<forall>h. \<not> checked_recently (last_check_times st) u (clock env h)"
    by (simp add: not_checked_recently_iff)
  from a have d: "distinct (map fst (active_configs st))" and i: "(u, c) \<in> set (active_configs st)"
    and g: "\<forall>h. \<exists>ms. gw_check_new_messages env h u = Inr ms"
    and n: "\<forall>h h'. total_seconds (clock env h' - clock env h) \<le> 10"
    by simp_all
  show "polls_of u (snd (check_new_messages env (check_new_messages env (st, tr)))) =
        polls_of u tr + 1"
    by (rule two_ticks [OF d i r g n])
qed

theorem poll_cooldown_witness:
  "check_account ((scenario_env None 100)\<lparr>clock := \<lambda>h. 30000000\<rparr>)
     (''acct'', scenario_config ''T1'') (scenario_manager, []) = (scenario_manager, [ClockRead]) \<and>
   polls_of ''acct''
     (snd (check_new_messages ((scenario_env None 100)\<lparr>clock := \<lambda>h. 30000000\<rparr>)
             (scenario_manager, []))) = 0 \<and>
   polls_of ''acct''
     (snd (check_account ((scenario_env None 100)\<lparr>clock := \<lambda>h. 100000000\<rparr>)
             (''acct'', scenario_config ''T1'')
             (check_account ((scenario_env None 100)\<lparr>clock := \<lambda>h. 100000000\<rparr>)
                (''acct'', scenario_config ''T1'') (scenario_manager, [])))) = 1 \<and>
   polls_of ''acct''
     (snd (check_new_messages ((scenario_env None 100)\<lparr>clock := \<lambda>h. 100000000\<rparr>)
             (check_new_messages ((scenario_env None 100)\<lparr>clock := \<lambda>h. 100000000\<rparr>)
                (scenario_manager, [])))) = 1"
proof -
  let ?E30 = "(scenario_env None 100)\<lparr>clock := \<lambda>h. 30000000\<rparr>"
  let ?E100 = "(scenario_env None 100)\<lparr>clock := \<lambda>h. 100000000\<rparr>"
  have l: "last_check_times scenario_manager ''acct'' = Some 1000000"
    and d: "distinct (map fst (active_configs scenario_manager))"
    and i: "(''acct'', scenario_config ''T1'') \<in> set (active_configs scenario_manager)"
    by (simp_all add: scenario_manager_def)
  have t30: "total_seconds (30000000 - 1000000) < 60"
    and t100: "60 \<le> total_seconds (100000000 - 1000000)"
    and t0: "total_seconds 0 \<le> 10"
    by (simp_all add: total_seconds_def)
  have g: "\<forall>h. gw_check_new_messages ?E100 h ''acct'' = Inr [scenario_message]"
    by (simp add: scenario_env_def)
  from poll_cooldown
         [where st = scenario_manager and u = "''acct''" and env = ?E30 and tr = "[]"
            and c = "scenario_config ''T1''"] l d i t30
  have 1: "check_account ?E30 (''acct'', scenario_config ''T1'') (scenario_manager, []) =
             (scenario_manager, [ClockRead])"
    and 2: "polls_of ''acct'' (snd (check_new_messages ?E30 (scenario_manager, []))) = 0"
    by (simp_all add: polls_of_def)
  from poll_cooldown
         [where st = scenario_manager and u = "''acct''" and env = ?E100 and tr = "[]"
            and c = "scenario_config ''T1''"] l d i t100 t0 g
  have 3: "polls_of ''acct''
     (snd (check_account ?E100 (''acct'', scenario_config ''T1'')
             (check_account ?E100 (''acct'', scenario_config ''T1'') (scenario_manager, [])))) = 1"
    and 4: "polls_of ''acct''
     (snd (check_new_messages ?E100 (check_new_messages ?E100 (scenario_manager, [])))) = 1"
    by (simp_all add: polls_of_def)
  from 1 2 3 4 show ?thesis by simp
qed

section \<open>Faults of one account in a tick\<close>



lemma tick_frame:
  "is_running (fst (check_new_messages env (st, tr))) = is_running st \<and>
   active_configs (fst (check_new_messages env (st, tr))) = active_configs st"
  using check_accounts_frame [of env "active_configs st" "(st, tr)"]
  by (simp add: check_new_messages_def)




section \<open>The loop of \<open>start\<close>\<close>

lemma start_loop_step_fault:
  assumes "is_running (fst s)" and "tick s = (Inl e, (st1, tr1))"
  shows "start_iteration tick slp s =
           slp AUTO_REPLY_CHECK_INTERVAL (st1, tr1 @ [LogError (ErrorInLoop e)])"
    and "start_loop tick slp s =
           start_loop tick slp (slp AUTO_REPLY_CHECK_INTERVAL (st1, tr1 @ [LogError (ErrorInLoop e)]))"
  using assms by (simp add: start_iteration_def, subst start_loop.simps, simp add: start_iteration_def)

lemma start_loop_step_ok:
  assumes "is_running (fst s)" and "tick s = (Inr (), s1)"
  shows "start_loop tick slp s = start_loop tick slp (slp AUTO_REPLY_CHECK_INTERVAL s1)"
  using assms by (subst start_loop.simps) (simp add: start_iteration_def)

lemma start_loop_returns_iff:
  "(\<exists>s'. start_loop tick slp s = Some s') \<longleftrightarrow>
   (\<exists>n. \<not> is_running (fst ((start_iteration tick slp ^^ n) s)))"
proof
  assume "\<exists>s'. start_loop tick slp s = Some s'"
  then obtain s' where "start_loop tick slp s = Some s'" ..
  from start_loop_iterates [OF this] show "\<exists>n. \<not> is_running (fst ((start_iteration tick slp ^^ n) s))"
    by blast
next
  assume "\<exists>n. \<not> is_running (fst ((start_iteration tick slp ^^ n) s))"
  then show "\<exists>s'. start_loop tick slp s = Some s'"
    using start_loop_returns by blast
qed

lemma apply_control_running:
  "ctl \<noteq> Stop \<Longrightarrow> is_running (fst (apply_control ctl s)) = is_running (fst s)"
  by (cases ctl; cases s) (simp_all add: update_config_def)

lemma fold_apply_control_running:
  "Stop \<notin> set ctls \<Longrightarrow> is_running (fst (fold apply_control ctls s)) = is_running (fst s)"
  by (induction ctls arbitrary: s) (auto simp add: apply_control_running)

lemma start_iteration_running:
  assumes "\<forall>h. Stop \<notin> set (other_tasks env h)"
  shows "is_running
           (fst (start_iteration (\<lambda>s. (Inr (), check_new_messages env s)) (asyncio_sleep env) s)) =
         is_running (fst s)"
proof -
  obtain st tr where s: "s = (st, tr)" by (cases s)
  obtain st1 tr1 where t: "check_new_messages env (st, tr) = (st1, tr1)"
    by (cases "check_new_messages env (st, tr)")
  from tick_frame [of env st tr] t have "is_running st1 = is_running st" by simp
  with assms show ?thesis
    by (simp add: s t start_iteration_def asyncio_sleep_def fold_apply_control_running)
qed

lemma start_iterations_running:
  assumes "\<forall>h. Stop \<notin> set (other_tasks env h)"
  shows "is_running
           (fst ((start_iteration (\<lambda>s. (Inr (), check_new_messages env s)) (asyncio_sleep env) ^^ n) s)) =
         is_running (fst s)"
  by (induction n) (simp_all add: start_iteration_running [OF assms])

lemma start_never_returns:
  assumes "\<forall>h. Stop \<notin> set (other_tasks env h)"
  shows "start env (st, tr) = None"
proof (cases "start env (st, tr)")
  case None
  then show ?thesis .
next
  case (Some s')
  let ?s0 = "(st\<lparr>is_running := True\<rparr>, tr @ [LogInfo Starting])"
  from Some have "start_loop (\<lambda>s. (Inr (), check_new_messages env s)) (asyncio_sleep env) ?s0 = Some s'"
    by (simp add: start_def start_with_def)
  from start_loop_iterates [OF this] obtain n where
    "s' = (start_iteration (\<lambda>s. (Inr (), check_new_messages env s)) (asyncio_sleep env) ^^ n) ?s0"
    "\<not> is_running (fst s')" by blast
  with start_iterations_running [OF assms, where n = n and s = ?s0] show ?thesis by simp
qed

text \<open>The stop is on record when the flag is down.\<close>

lemma apply_control_stopping:
  assumes "snd s = base @ evs" and "is_running (fst s) \<or> LogInfo Stopping \<in> set evs"
  shows "\<exists>evs'. snd (apply_control ctl s) = base @ evs' \<and>
           (is_running (fst (apply_control ctl s)) \<or> LogInfo Stopping \<in> set evs')"
proof (cases ctl)
  case Stop
  with assms(1) show ?thesis
    by (cases s) (simp add: stop_def)
next
  case (UpdateConfig v c)
  with assms show ?thesis
    by (cases s) (auto simp add: update_config_def)
qed

lemma fold_apply_control_stopping:
  assumes "snd s = base @ evs" and "is_running (fst s) \<or> LogInfo Stopping \<in> set evs"
  shows "\<exists>evs'. snd (fold apply_control ctls s) = base @ evs' \<and>
           (is_running (fst (fold apply_control ctls s)) \<or> LogInfo Stopping \<in> set evs')"
  using assms
proof (induction ctls arbitrary: s evs)
  case Nil
  then show ?case by simp
next
  case (Cons ctl ctls)
  from apply_control_stopping [OF Cons.prems, where ctl = ctl] obtain evs' where
    "snd (apply_control ctl s) = base @ evs'"
    "is_running (fst (apply_control ctl s)) \<or> LogInfo Stopping \<in> set evs'" by blast
  from Cons.IH [OF this] show ?case by simp
qed

lemma start_iteration_stopping:
  assumes "snd s = base @ evs" and "is_running (fst s) \<or> LogInfo Stopping \<in> set evs"
  shows "\<exists>evs'.
           snd (start_iteration (\<lambda>s. (Inr (), check_new_messages env s)) (asyncio_sleep env) s) =
             base @ evs' \<and>
           (is_running
              (fst (start_iteration (\<lambda>s. (Inr (), check_new_messages env s)) (asyncio_sleep env) s)) \<or>
            LogInfo Stopping \<in> set evs')"
proof -
  obtain st tr where s: "s = (st, tr)" by (cases s)
  obtain st1 tr1 where t: "check_new_messages env (st, tr) = (st1, tr1)"
    by (cases "check_new_messages env (st, tr)")
  from tick_frame [of env st tr] t have r: "is_running st1 = is_running st" by simp
  from check_accounts_ext [of env "active_configs st" "(st, tr)"] t obtain e1
    where e1: "tr1 = tr @ e1" by (auto simp add: check_new_messages_def)
  let ?s2 = "(st1, tr1 @ [Sleep AUTO_REPLY_CHECK_INTERVAL])"
  from assms s e1 have a: "snd ?s2 = base @ (evs @ e1 @ [Sleep AUTO_REPLY_CHECK_INTERVAL])"
    by simp
  from assms(2) s r have b: "is_running (fst ?s2) \<or>
      LogInfo Stopping \<in> set (evs @ e1 @ [Sleep AUTO_REPLY_CHECK_INTERVAL])" by auto
  from fold_apply_control_stopping [OF a b]
  show ?thesis by (simp add: s t start_iteration_def asyncio_sleep_def)
qed

lemma start_iterations_stopping:
  assumes "snd s = base @ evs" and "is_running (fst s) \<or> LogInfo Stopping \<in> set evs"
  shows "\<exists>evs'.
           snd ((start_iteration (\<lambda>s. (Inr (), check_new_messages env s)) (asyncio_sleep env) ^^ n) s) =
             base @ evs' \<and>
           (is_running
              (fst ((start_iteration (\<lambda>s. (Inr (), check_new_messages env s)) (asyncio_sleep env) ^^ n) s)) \<or>
            LogInfo Stopping \<in> set evs')"
proof (induction n)
  case 0
  with assms show ?case by simp
next
  case (Suc n)
  then obtain evs' where
    "snd ((start_iteration (\<lambda>s. (Inr (), check_new_messages env s)) (asyncio_sleep env) ^^ n) s) =
       base @ evs'"
    "is_running
       (fst ((start_iteration (\<lambda>s. (Inr (), check_new_messages env s)) (asyncio_sleep env) ^^ n) s)) \<or>
     LogInfo Stopping \<in> set evs'" by blast
  from start_iteration_stopping [OF this, where env = env] show ?case by simp
qed

lemma start_returns_stopped:
  assumes "start env (st, tr) = Some s'"
  shows "\<not> is_running (fst s') \<and>
         (\<exists>evs. snd s' = tr @ LogInfo Starting # evs \<and> LogInfo Stopping \<in> set evs)"
proof -
  let ?s0 = "(st\<lparr>is_running := True\<rparr>, tr @ [LogInfo Starting])"
  from assms have "start_loop (\<lambda>s. (Inr (), check_new_messages env s)) (asyncio_sleep env) ?s0 = Some s'"
    by (simp add: start_def start_with_def)
  from start_loop_iterates [OF this] obtain n where
    n: "s' = (start_iteration (\<lambda>s. (Inr (), check_new_messages env s)) (asyncio_sleep env) ^^ n) ?s0"
       "\<not> is_running (fst s')" by blast
  have "snd ?s0 = (tr @ [LogInfo Starting]) @ []" and "is_running (fst ?s0) \<or> LogInfo Stopping \<in> set []"
    by simp_all
  from start_iterations_stopping [OF this, where env = env and n = n] n show ?thesis by auto
qed

lemma asyncio_sleep_trace:
  "\<exists>evs. snd (asyncio_sleep env n (st, tr)) = tr @ Sleep n # evs"
proof -
  have "\<exists>evs'. snd (fold apply_control ctls s) = snd s @ evs'" for ctls and s :: mstate
  proof (induction ctls arbitrary: s)
    case Nil
    then show ?case by simp
  next
    case (Cons ctl ctls)
    have "\<exists>e1. snd (apply_control ctl s) = snd s @ e1"
      by (cases ctl; cases s) (simp_all add: stop_def update_config_def)
    then obtain e1 where e1: "snd (apply_control ctl s) = snd s @ e1" ..
    from Cons.IH [of "apply_control ctl s"] e1 show ?case by auto
  qed
  from this [of "other_tasks env (tr @ [Sleep n])" "(st, tr @ [Sleep n])"]
  show ?thesis by (simp add: asyncio_sleep_def)
qed

text \<open>
  C7: the loop of \<open>start\<close> returns only in a state where the running flag is false, and
  that state is the one reached after some number of whole turns, the flag having been
  true at the start of each of them; it returns if and only if the flag is false at the
  start of some turn. An exception raised by the tick of a turn is caught: the turn logs
  it, sleeps the 60 seconds of the interval and the loop goes on with the next turn, as
  it does after a tick that returns, so no exception ends the loop. For the loop of the
  manager, the sleep is on record in the run, the flag goes down only by a call of
  \<open>stop\<close>: with no such call the loop never returns, and a run that returns has the
  record of \<open>stop\<close> after its start.
\<close>

theorem loop_ends_only_when_stopped:
  "(\<forall>s'. start_loop tick slp s = Some s' \<longrightarrow>
      \<not> is_running (fst s') \<and>
      (\<exists>n. s' = (start_iteration tick slp ^^ n) s \<and>
           (\<forall>k<n. is_running (fst ((start_iteration tick slp ^^ k) s))))) \<and>
   ((\<exists>s'. start_loop tick slp s = Some s') =
      (\<exists>n. \<not> is_running (fst ((start_iteration tick slp ^^ n) s)))) \<and>
   (\<not> is_running (fst s) \<longrightarrow> start_loop tick slp s = Some s) \<and>
   (\<forall>e st1 tr1. is_running (fst s) \<and> tick s = (Inl e, (st1, tr1)) \<longrightarrow>
      start_iteration tick slp s = slp 60 (st1, tr1 @ [LogError (ErrorInLoop e)]) \<and>
      start_loop tick slp s =
        start_loop tick slp (slp 60 (st1, tr1 @ [LogError (ErrorInLoop e)]))) \<and>
   (\<forall>s1. is_running (fst s) \<and> tick s = (Inr (), s1) \<longrightarrow>
      start_iteration tick slp s = slp 60 s1 \<and>
      start_loop tick slp s = start_loop tick slp (slp 60 s1)) \<and>
   (\<exists>evs. snd (asyncio_sleep env n (st, tr)) = tr @ Sleep n # evs) \<and>
   ((\<forall>h. Stop \<notin> set (other_tasks env h)) \<longrightarrow> start env (st, tr) = None) \<and>
   (\<forall>s'. start env (st, tr) = Some s' \<longrightarrow>
      \<not> is_running (fst s') \<and>
      (\<exists>evs. snd s' = tr @ LogInfo Starting # evs \<and> LogInfo Stopping \<in> set evs))"
proof -
  have 1: "\<forall>s'. start_loop tick slp s = Some s' \<longrightarrow>
      \<not> is_running (fst s') \<and>
      (\<exists>n. s' = (start_iteration tick slp ^^ n) s \<and>
           (\<forall>k<n. is_running (fst ((start_iteration tick slp ^^ k) s))))"
    using start_loop_iterates [of tick slp s] by blast
  have 2: "(\<exists>s'. start_loop tick slp s = Some s') =
      (\<exists>n. \<not> is_running (fst ((start_iteration tick slp ^^ n) s)))"
    by (rule start_loop_returns_iff)
  have 3: "\<not> is_running (fst s) \<longrightarrow> start_loop tick slp s = Some s"
    by (subst start_loop.simps) simp
  have 4: "\<forall>e st1 tr1. is_running (fst s) \<and> tick s = (Inl e, (st1, tr1)) \<longrightarrow>
      start_iteration tick slp s = slp 60 (st1, tr1 @ [LogError (ErrorInLoop e)]) \<and>
      start_loop tick slp s =
        start_loop tick slp (slp 60 (st1, tr1 @ [LogError (ErrorInLoop e)]))"
    using start_loop_step_fault [of s tick _ _ _ slp]
    by (simp add: AUTO_REPLY_CHECK_INTERVAL_def)
  have 5: "\<forall>s1. is_running (fst s) \<and> tick s = (Inr (), s1) \<longrightarrow>
      start_iteration tick slp s = slp 60 s1 \<and>
      start_loop tick slp s = start_loop tick slp (slp 60 s1)"
    using start_loop_step_ok [of s tick _ slp]
    by (simp add: AUTO_REPLY_CHECK_INTERVAL_def start_iteration_def)
  have 6: "\<exists>evs. snd (asyncio_sleep env n (st, tr)) = tr @ Sleep n # evs"
    by (rule asyncio_sleep_trace)
  have 7: "(\<forall>h. Stop \<notin> set (other_tasks env h)) \<longrightarrow> start env (st, tr) = None"
    using start_never_returns by blast
  have 8: "\<forall>s'. start env (st, tr) = Some s' \<longrightarrow>
      \<not> is_running (fst s') \<and>
      (\<exists>evs. snd s' = tr @ LogInfo Starting # evs \<and> LogInfo Stopping \<in> set evs)"
    using start_returns_stopped by blast
  from 1 2 3 4 5 6 7 8 show ?thesis by blast
qed

lemma scenario_tick_run:
  "start_loop (scenario_tick (scenario_env None 5)) (asyncio_sleep (scenario_env None 5))
     (scenario_manager\<lparr>is_running := True\<rparr>, [LogInfo Starting]) =
   Some (scenario_manager,
         [LogInfo Starting,
          LogError (ErrorInLoop (Raised ''dictionary changed size during iteration'')),
          Sleep 60, ClockRead, Sleep 60, LogInfo Stopping])"
  apply (subst start_loop.simps)
  apply (simp add: scenario_manager_def start_iteration_def scenario_tick_def
      AUTO_REPLY_CHECK_INTERVAL_def scenario_env_def asyncio_sleep_def)
  apply (subst start_loop.simps)
  apply (simp add: start_iteration_def scenario_tick_def check_new_messages_def check_account_def
      check_account_try_def checked_recently_def total_seconds_def AUTO_REPLY_CHECK_INTERVAL_def
      scenario_env_def asyncio_sleep_def stop_def)
  apply (subst start_loop.simps)
  apply simp
  done

theorem loop_ends_only_when_stopped_witness:
  "start_loop (scenario_tick (scenario_env None 5)) (asyncio_sleep (scenario_env None 5))
     (scenario_manager\<lparr>is_running := True\<rparr>, [LogInfo Starting]) =
   Some (scenario_manager,
         [LogInfo Starting,
          LogError (ErrorInLoop (Raised ''dictionary changed size during iteration'')),
          Sleep 60, ClockRead, Sleep 60, LogInfo Stopping]) \<and>
   \<not> is_running scenario_manager \<and>
   start_iteration (scenario_tick (scenario_env None 5)) (asyncio_sleep (scenario_env None 5))
     (scenario_manager\<lparr>is_running := True\<rparr>, [LogInfo Starting]) =
   (scenario_manager\<lparr>is_running := True\<rparr>,
    [LogInfo Starting,
     LogError (ErrorInLoop (Raised ''dictionary changed size during iteration'')), Sleep 60]) \<and>
   start ((scenario_env None 0)\<lparr>other_tasks := \<lambda>h. []\<rparr>) (scenario_manager, []) = None \<and>
   (\<exists>evs. start (scenario_env None 0) (scenario_manager, []) =
            Some (scenario_manager, LogInfo Starting # evs) \<and>
          LogInfo Stopping \<in> set evs)"
proof -
  let ?E = "scenario_env None 5"
  let ?s0 = "(scenario_manager\<lparr>is_running := True\<rparr>, [LogInfo Starting])"
  note T = loop_ends_only_when_stopped
    [where tick = "scenario_tick ?E" and slp = "asyncio_sleep ?E" and s = ?s0
       and env = "(scenario_env None 0)\<lparr>other_tasks := \<lambda>h. []\<rparr>"
       and st = scenario_manager and tr = "[]" and n = 60]
  note U = loop_ends_only_when_stopped
    [where tick = "scenario_tick ?E" and slp = "asyncio_sleep ?E" and s = ?s0
       and env = "scenario_env None 0" and st = scenario_manager and tr = "[]" and n = 60]
  from T scenario_tick_run
  have 1: "\<not> is_running scenario_manager" by simp
  have r: "is_running (fst ?s0)" by simp
  have f: "scenario_tick ?E ?s0 =
      (Inl (Raised ''dictionary changed size during iteration''),
       (scenario_manager\<lparr>is_running := True\<rparr>, [LogInfo Starting]))"
    by (simp add: scenario_tick_def)
  from T r f
  have "start_iteration (scenario_tick ?E) (asyncio_sleep ?E) ?s0 =
     asyncio_sleep ?E 60
       (scenario_manager\<lparr>is_running := True\<rparr>,
        [LogInfo Starting] @
        [LogError (ErrorInLoop (Raised ''dictionary changed size during iteration''))])"
    by blast
  then have 2: "start_iteration (scenario_tick ?E) (asyncio_sleep ?E) ?s0 =
     (scenario_manager\<lparr>is_running := True\<rparr>,
      [LogInfo Starting,
       LogError (ErrorInLoop (Raised ''dictionary changed size during iteration'')), Sleep 60])"
    by (simp add: asyncio_sleep_def scenario_env_def)
  have "\<forall>h. Stop \<notin> set (other_tasks ((scenario_env None 0)\<lparr>other_tasks := \<lambda>h. []\<rparr>) h)"
    by simp
  with T have 3: "start ((scenario_env None 0)\<lparr>other_tasks := \<lambda>h. []\<rparr>) (scenario_manager, []) = None"
    by blast
  from U scenario_run
  have 4: "\<exists>evs. start (scenario_env None 0) (scenario_manager, []) =
            Some (scenario_manager, LogInfo Starting # evs) \<and>
          LogInfo Stopping \<in> set evs"
    by simp
  from scenario_tick_run 1 2 3 4 show ?thesis by simp
qed

end
